theory Spec2Isabelle
  imports Main
begin

section \<open>Strings and the JavaScript string operations the gatherer uses\<close>

text \<open>
  A JavaScript string is modelled as a \<^typ>\<open>string\<close>: one \<^typ>\<open>char\<close> per code unit,
  for code units below 256. \<open>undefined\<close> and \<open>null\<close> are \<^const>\<open>None\<close>.
\<close>

text \<open>Truthiness of an optional string: \<open>undefined\<close>, \<open>null\<close> and \<open>''\<close> are falsy.\<close>

fun truthy :: "string option \<Rightarrow> bool" where
  "truthy None = False"
| "truthy (Some s) = (s \<noteq> [])"

text \<open>\<open>a || b\<close> for an optional string \<open>a\<close> and a string \<open>b\<close>.\<close>

definition or_else :: "string option \<Rightarrow> string \<Rightarrow> string" where
  "or_else a b = (case a of Some s \<Rightarrow> (if s \<noteq> [] then s else b) | None \<Rightarrow> b)"

text \<open>
  The rest of \<open>s\<close> after the literal \<open>p\<close>, when \<open>s\<close> starts with \<open>p\<close> (a literal at
  the current position of a pattern).
\<close>

fun lit :: "string \<Rightarrow> string \<Rightarrow> string option" where
  "lit [] s = Some s"
| "lit (p # ps) [] = None"
| "lit (p # ps) (c # cs) = (if p = c then lit ps cs else None)"

text \<open>
  \<open>String.prototype.indexOf\<close>, returning the text before and after the first occurrence
  of \<open>pat\<close> in \<open>s\<close>.
\<close>

fun find_first :: "string \<Rightarrow> string \<Rightarrow> (string \<times> string) option" where
  "find_first pat [] = (case lit pat [] of Some r \<Rightarrow> Some ([], r) | None \<Rightarrow> None)"
| "find_first pat (c # cs) =
     (case lit pat (c # cs) of
        Some r \<Rightarrow> Some ([], r)
      | None \<Rightarrow> (case find_first pat cs of
                   Some (pre, post) \<Rightarrow> Some (c # pre, post)
                 | None \<Rightarrow> None))"

text \<open>
  \<open>GetSubstitution\<close> of ECMAScript for a string pattern (no capture groups): in the
  replacement text \<open>$$\<close> stands for \<open>$\<close>, \<open>$&\<close> for the matched text, \<open>$`\<close> for the text
  before the match and \<open>$'\<close> for the text after it; every other character, and a \<open>$\<close>
  followed by anything else, stands for itself.
\<close>

fun GetSubstitution :: "string \<Rightarrow> string \<Rightarrow> string \<Rightarrow> string \<Rightarrow> string" where
  "GetSubstitution matched pre post [] = []"
| "GetSubstitution matched pre post [c] = [c]"
| "GetSubstitution matched pre post (c # d # rest) =
     (if c = CHR ''$'' \<and> d = CHR ''$'' then CHR ''$'' # GetSubstitution matched pre post rest
      else if c = CHR ''$'' \<and> d = CHR ''&'' then matched @ GetSubstitution matched pre post rest
      else if c = CHR ''$'' \<and> d = CHR 0x60 then pre @ GetSubstitution matched pre post rest
      else if c = CHR ''$'' \<and> d = CHR 0x27 then post @ GetSubstitution matched pre post rest
      else c # GetSubstitution matched pre post (d # rest))"

text \<open>
  \<open>s.replace(pat, rep)\<close> with a string pattern: the first occurrence of \<open>pat\<close> is
  replaced by the substitution of \<open>rep\<close>; \<open>s\<close> is returned as it is when \<open>pat\<close> does not
  occur.
\<close>

definition replace :: "string \<Rightarrow> string \<Rightarrow> string \<Rightarrow> string" where
  "replace s pat rep =
     (case find_first pat s of
        None \<Rightarrow> s
      | Some (pre, post) \<Rightarrow> pre @ GetSubstitution pat pre post rep @ post)"

text \<open>\<open>s.split('/')\<close>: the segments between slashes; the empty string gives \<open>['']\<close>.\<close>

fun split_slash :: "string \<Rightarrow> string list" where
  "split_slash [] = [[]]"
| "split_slash (c # cs) =
     (if c = CHR ''/'' then [] # split_slash cs
      else (case split_slash cs of
              seg # segs \<Rightarrow> (c # seg) # segs
            | [] \<Rightarrow> [[c]]))"

text \<open>\<open>segs.join('/')\<close>.\<close>

fun join_slash :: "string list \<Rightarrow> string" where
  "join_slash [] = []"
| "join_slash [s] = s"
| "join_slash (s # t # segs) = s @ CHR ''/'' # join_slash (t # segs)"

section \<open>Node's \<open>path.join\<close> (POSIX)\<close>

text \<open>
  \<open>normalizeString\<close> of Node's \<open>path\<close> module, on the list of segments: \<open>res\<close> is the
  stack of segments kept so far, last one first. Empty segments and \<open>.\<close> are dropped;
  \<open>..\<close> removes the last kept segment, unless there is none or it is \<open>..\<close> itself, and
  then it is kept when the path is relative (\<open>allowAboveRoot\<close>).
\<close>

fun normalizeString :: "bool \<Rightarrow> string list \<Rightarrow> string list \<Rightarrow> string list" where
  "normalizeString allowAboveRoot res [] = rev res"
| "normalizeString allowAboveRoot res (seg # segs) =
     (if seg = [] \<or> seg = ''.'' then normalizeString allowAboveRoot res segs
      else if seg = ''..'' then
        (case res of
           r # rs \<Rightarrow>
             (if r \<noteq> ''..'' then normalizeString allowAboveRoot rs segs
              else if allowAboveRoot then normalizeString allowAboveRoot (seg # res) segs
              else normalizeString allowAboveRoot res segs)
         | [] \<Rightarrow>
             (if allowAboveRoot then normalizeString allowAboveRoot (seg # res) segs
              else normalizeString allowAboveRoot res segs))
      else normalizeString allowAboveRoot (seg # res) segs)"

text \<open>\<open>path.normalize\<close>.\<close>

definition normalize :: "string \<Rightarrow> string" where
  "normalize p =
     (if p = [] then ''.''
      else
        let isAbsolute = (hd p = CHR ''/'');
            trailingSeparator = (last p = CHR ''/'');
            q = join_slash (normalizeString (\<not> isAbsolute) [] (split_slash p))
        in if q = [] then (if isAbsolute then ''/'' else if trailingSeparator then ''./'' else ''.'')
           else (if isAbsolute then ''/'' else []) @ q @ (if trailingSeparator then ''/'' else []))"

text \<open>\<open>path.join(a, b)\<close>: the non-empty arguments joined by a slash, then normalized.\<close>

definition path_join :: "string \<Rightarrow> string \<Rightarrow> string" where
  "path_join a b =
     (if a = [] \<and> b = [] then ''.''
      else if a = [] then normalize b
      else if b = [] then normalize a
      else normalize (a @ CHR ''/'' # b))"

section \<open>The regular expressions\<close>

text \<open>
  The character classes: \<open>.\<close> matches every character but a line terminator, \<open>\w\<close> an
  ASCII letter, a digit or an underscore.
\<close>

definition dot :: "char \<Rightarrow> bool" where
  "dot c = (c \<noteq> CHR 0x0A \<and> c \<noteq> CHR 0x0D)"

definition word_char :: "char \<Rightarrow> bool" where
  "word_char c = (c \<in> set ''abcdefghijklmnopqrstuvwxyzABCDEFGHIJKLMNOPQRSTUVWXYZ0123456789_'')"

definition digit :: "char \<Rightarrow> bool" where
  "digit c = (c \<in> set ''0123456789'')"

text \<open>
  A greedy \<open>(.*)\<close> followed by the rest of the pattern \<open>k\<close>: the group takes as many
  characters as it can and gives them back one at a time until \<open>k\<close> matches what is
  left. The result is the text of the group and the result of \<open>k\<close>.
\<close>

fun dot_star :: "(string \<Rightarrow> 'a option) \<Rightarrow> string \<Rightarrow> (string \<times> 'a) option" where
  "dot_star k [] = (case k [] of Some r \<Rightarrow> Some ([], r) | None \<Rightarrow> None)"
| "dot_star k (c # cs) =
     (case (if dot c then dot_star k cs else None) of
        Some (g, r) \<Rightarrow> Some (c # g, r)
      | None \<Rightarrow> (case k (c # cs) of Some r \<Rightarrow> Some ([], r) | None \<Rightarrow> None))"

text \<open>A greedy \<open>.+\<close> followed by \<open>k\<close>: one character of the class, then \<open>.*\<close>.\<close>

definition dot_plus :: "(string \<Rightarrow> 'a option) \<Rightarrow> string \<Rightarrow> (string \<times> 'a) option" where
  "dot_plus k s =
     (case s of
        [] \<Rightarrow> None
      | c # cs \<Rightarrow> (if dot c then (case dot_star k cs of Some (g, r) \<Rightarrow> Some (c # g, r) | None \<Rightarrow> None)
                  else None))"

text \<open>
  A greedy optional group \<open>(p)?\<close> followed by \<open>k\<close>: first with the group, and without
  it when the group or the rest fails. The result is the group's capture (\<open>undefined\<close>
  when the group did not take part) and the result of \<open>k\<close>.
\<close>

definition opt :: "(string \<Rightarrow> ('c \<times> string) option) \<Rightarrow> (string \<Rightarrow> 'a option) \<Rightarrow> string
    \<Rightarrow> ('c option \<times> 'a) option" where
  "opt p k s =
     (case (case p s of Some (c, r) \<Rightarrow> (case k r of Some x \<Rightarrow> Some (Some c, x) | None \<Rightarrow> None)
                      | None \<Rightarrow> None) of
        Some y \<Rightarrow> Some y
      | None \<Rightarrow> (case k s of Some x \<Rightarrow> Some (None, x) | None \<Rightarrow> None))"

text \<open>The end of a pattern: the literal \<open>p\<close>, then \<open>$\<close>.\<close>

definition lit_end :: "string \<Rightarrow> string \<Rightarrow> unit option" where
  "lit_end p s = (if s = p then Some () else None)"

text \<open>
  \<open>FILENAME_REGEXP = /^(.*)\.(\w+)$/\<close>; the result of \<open>name.match\<close>: the two groups, or
  \<^const>\<open>None\<close> for \<open>null\<close>. \<open>filename_ext\<close> is the pattern after the first group:
  \<open>\.(\w+)$\<close>.
\<close>

definition filename_ext :: "string \<Rightarrow> string option" where
  "filename_ext r =
     (case r of
        [] \<Rightarrow> None
      | c # w \<Rightarrow> (if c = CHR ''.'' \<and> w \<noteq> [] \<and> list_all word_char w then Some w else None))"

definition FILENAME_REGEXP :: "string \<Rightarrow> (string \<times> string) option" where
  "FILENAME_REGEXP s = dot_star filename_ext s"

text \<open>
  \<open>LAUNCH_IMAGE_REGEXP = /^(Default(-(Landscape|Portrait))?(-[0-9]+h)?(@[2-9]x)?)\.png$/\<close>;
  the code only calls \<open>test\<close>, so the model gives a truth value.
\<close>

definition orientation :: "string \<Rightarrow> (string \<times> string) option" where
  "orientation s =
     (case lit ''-'' s of
        None \<Rightarrow> None
      | Some r \<Rightarrow> (case lit ''Landscape'' r of
                    Some r' \<Rightarrow> Some (''-Landscape'', r')
                  | None \<Rightarrow> (case lit ''Portrait'' r of
                               Some r' \<Rightarrow> Some (''-Portrait'', r')
                             | None \<Rightarrow> None)))"

definition height :: "string \<Rightarrow> (string \<times> string) option" where
  "height s =
     (case lit ''-'' s of
        None \<Rightarrow> None
      | Some r \<Rightarrow>
          (let ds = takeWhile digit r
           in if ds = [] then None
              else (case lit ''h'' (dropWhile digit r) of
                      Some r' \<Rightarrow> Some (''-'' @ ds @ ''h'', r')
                    | None \<Rightarrow> None)))"

definition image_scale :: "string \<Rightarrow> (string \<times> string) option" where
  "image_scale s =
     (case s of
        a # n # x # r \<Rightarrow>
          (if a = CHR ''@'' \<and> n \<in> set ''23456789'' \<and> x = CHR ''x'' then Some ([a, n, x], r) else None)
      | _ \<Rightarrow> None)"

definition LAUNCH_IMAGE_REGEXP :: "string \<Rightarrow> bool" where
  "LAUNCH_IMAGE_REGEXP s =
     (case lit ''Default'' s of
        None \<Rightarrow> False
      | Some r \<Rightarrow> opt orientation (opt height (opt image_scale (lit_end ''.png''))) r \<noteq> None)"

text \<open>
  \<open>LAUNCH_LOGO_REGEXP = /^LaunchLogo(?:@([23])x)?(?:~(iphone|ipad))?\.(?:png|jpg)$/\<close>;
  the result of \<open>name.match\<close>: the two groups, each \<^const>\<open>None\<close> when it took no part.
\<close>

definition logo_scale :: "string \<Rightarrow> (string \<times> string) option" where
  "logo_scale s =
     (case s of
        a # n # x # r \<Rightarrow>
          (if a = CHR ''@'' \<and> n \<in> set ''23'' \<and> x = CHR ''x'' then Some ([n], r) else None)
      | _ \<Rightarrow> None)"

definition logo_device :: "string \<Rightarrow> (string \<times> string) option" where
  "logo_device s =
     (case lit ''~'' s of
        None \<Rightarrow> None
      | Some r \<Rightarrow> (case lit ''iphone'' r of
                    Some r' \<Rightarrow> Some (''iphone'', r')
                  | None \<Rightarrow> (case lit ''ipad'' r of
                               Some r' \<Rightarrow> Some (''ipad'', r')
                             | None \<Rightarrow> None)))"

definition LAUNCH_LOGO_REGEXP :: "string \<Rightarrow> (string option \<times> string option) option" where
  "LAUNCH_LOGO_REGEXP s =
     (case lit ''LaunchLogo'' s of
        None \<Rightarrow> None
      | Some r \<Rightarrow>
          (case opt logo_scale
                  (opt logo_device (\<lambda>e. if e = ''.png'' \<or> e = ''.jpg'' then Some () else None)) r of
             Some (m1, m2, _) \<Rightarrow> Some (m1, m2)
           | None \<Rightarrow> None))"

text \<open>
  \<open>BUNDLE_FILE_REGEXP = /.+\.bundle\/.+/\<close>, not anchored: the match is tried from every
  position of the string. The code only uses whether \<open>relPath.match\<close> is \<open>null\<close>.
  \<open>bundle_rest\<close> is the pattern after the first \<open>.+\<close>: the literal \<open>.bundle/\<close>, then one more
  character of the class (what the last \<open>.+\<close> needs); \<open>bundle_at\<close> is the match tried at
  the start of a string.
\<close>

definition bundle_rest :: "string \<Rightarrow> unit option" where
  "bundle_rest r =
     (case lit ''.bundle/'' r of
        None \<Rightarrow> None
      | Some t \<Rightarrow> (case t of c # _ \<Rightarrow> (if dot c then Some () else None) | [] \<Rightarrow> None))"

definition bundle_at :: "string \<Rightarrow> bool" where
  "bundle_at s = (dot_plus bundle_rest s \<noteq> None)"

fun BUNDLE_FILE_REGEXP :: "string \<Rightarrow> bool" where
  "BUNDLE_FILE_REGEXP [] = bundle_at []"
| "BUNDLE_FILE_REGEXP (c # cs) = (bundle_at (c # cs) \<or> BUNDLE_FILE_REGEXP cs)"

section \<open>Patterns built at run time: \<open>new RegExp\<close>\<close>

text \<open>
  The constructor of \<open>Walker\<close> builds the pattern of the app icon from a string, so
  the pattern language itself is part of the program's behaviour. It is embedded for
  the sources made of pattern characters, escaped syntax characters, \<open>.\<close>, \<open>^\<close>, \<open>$\<close>,
  the groups \<open>( )\<close> and \<open>(?: )\<close>, \<open>|\<close> and the quantifiers \<open>*\<close>, \<open>+\<close>, \<open>?\<close> with
  their lazy forms, without flags.
\<close>

text \<open>The characters of the pattern syntax.\<close>

definition syntax_char :: "char \<Rightarrow> bool" where
  "syntax_char c = (c \<in> set [CHR 0x5C, CHR ''^'', CHR ''$'', CHR ''.'', CHR ''*'', CHR ''+'', CHR ''?'',
     CHR ''('', CHR '')'', CHR ''['', CHR '']'', CHR ''{'', CHR ''}'', CHR ''|''])"

text \<open>
  A parsed pattern. The flag of a quantifier tells whether it is greedy; a capturing
  group carries its number, counted from 1 by the opening parentheses.
\<close>

datatype regex =
    Char char
  | AnyChar
  | AssertStart
  | AssertEnd
  | Empty
  | Seq regex regex
  | Alt regex regex
  | Star regex bool
  | Plus regex bool
  | Opt regex bool
  | Group nat regex

text \<open>The numbers of the capturing groups inside a pattern.\<close>

fun groups :: "regex \<Rightarrow> nat list" where
  "groups (Seq a b) = groups a @ groups b"
| "groups (Alt a b) = groups a @ groups b"
| "groups (Star r g) = groups r"
| "groups (Plus r g) = groups r"
| "groups (Opt r g) = groups r"
| "groups (Group k r) = k # groups r"
| "groups r = []"

fun weight :: "regex \<Rightarrow> nat" where
  "weight (Seq a b) = Suc (weight a + weight b)"
| "weight (Alt a b) = Suc (weight a + weight b)"
| "weight (Star r g) = Suc (weight r)"
| "weight (Plus r g) = Suc (Suc (weight r))"
| "weight (Opt r g) = Suc (weight r)"
| "weight (Group k r) = Suc (weight r)"
| "weight r = 0"

text \<open>
  The captures of a match in progress: the text of each group that has taken part,
  the latest first. A quantifier clears the captures of the groups inside it at the
  start of every iteration.
\<close>

type_synonym captures = "(nat \<times> string) list"

definition reset :: "regex \<Rightarrow> captures \<Rightarrow> captures" where
  "reset r caps = filter (\<lambda>e. fst e \<notin> set (groups r)) caps"

text \<open>
  The backtracking matcher of ECMAScript, as the list of the ways a pattern can match
  at a position, in the order backtracking tries them. A state is the rest of the
  input and the captures; \<open>n\<close> is the length of the whole input, so that \<open>^\<close> holds
  where the rest is all of it. An iteration of a quantifier with no minimum left
  that takes no character is rejected (the empty check of \<open>RepeatMatcher\<close>).
\<close>

function (sequential) matches :: "nat \<Rightarrow> regex \<Rightarrow> string \<times> captures \<Rightarrow> (string \<times> captures) list" where
  "matches n (Char c) (s, caps) = (case s of [] \<Rightarrow> [] | x # xs \<Rightarrow> (if x = c then [(xs, caps)] else []))"
| "matches n AnyChar (s, caps) = (case s of [] \<Rightarrow> [] | x # xs \<Rightarrow> (if dot x then [(xs, caps)] else []))"
| "matches n AssertStart (s, caps) = (if length s = n then [(s, caps)] else [])"
| "matches n AssertEnd (s, caps) = (if s = [] then [(s, caps)] else [])"
| "matches n Empty (s, caps) = [(s, caps)]"
| "matches n (Seq a b) (s, caps) = concat (map (matches n b) (matches n a (s, caps)))"
| "matches n (Alt a b) (s, caps) = matches n a (s, caps) @ matches n b (s, caps)"
| "matches n (Group k r) (s, caps) =
     map (\<lambda>y. (fst y, (k, take (length s - length (fst y)) s) # snd y)) (matches n r (s, caps))"
| "matches n (Opt r greedy) (s, caps) =
     (let iter = filter (\<lambda>y. length (fst y) < length s) (matches n r (s, reset r caps))
      in if greedy then iter @ [(s, caps)] else (s, caps) # iter)"
| "matches n (Plus r greedy) (s, caps) =
     concat (map (matches n (Star r greedy)) (matches n r (s, reset r caps)))"
| "matches n (Star r greedy) (s, caps) =
     (let iter = concat (map (\<lambda>y. if length (fst y) < length s then matches n (Star r greedy) y else [])
                          (matches n r (s, reset r caps)))
      in if greedy then iter @ [(s, caps)] else (s, caps) # iter)"
  by pat_completeness auto
termination
  by (relation "inv_image (less_than <*lex*> less_than) (\<lambda>(n, r, s, caps). (weight r, length s))") auto

text \<open>
  The match tried at one position of the input (\<open>s\<close> is the input from that position
  on), and the search of \<open>RegExpBuiltinExec\<close> for a pattern without flags: from every
  position in turn, the first one that matches. The result is the captures.
\<close>

definition match_at :: "regex \<Rightarrow> string \<Rightarrow> string \<Rightarrow> captures option" where
  "match_at r inp s = (case matches (length inp) r (s, []) of [] \<Rightarrow> None | y # ys \<Rightarrow> Some (snd y))"

fun search :: "regex \<Rightarrow> string \<Rightarrow> string \<Rightarrow> captures option" where
  "search r inp [] = match_at r inp []"
| "search r inp (c # cs) =
     (case match_at r inp (c # cs) of Some caps \<Rightarrow> Some caps | None \<Rightarrow> search r inp cs)"

text \<open>
  The parser reads the source from left to right. It keeps the terms of the
  alternative it is in, the last one first, each with what may follow it: a
  quantifier (after an atom), a \<open>?\<close> that makes the quantifier lazy (after a
  quantifier), or neither (after an assertion or a lazy quantifier).
\<close>

datatype quantifiable = Atom | Quantified | Closed

datatype group_kind = Capture nat | NonCapture

type_synonym terms = "(regex \<times> quantifiable) list"

definition alternative :: "terms \<Rightarrow> regex" where
  "alternative ts = foldl (\<lambda>acc t. Seq (fst t) acc) Empty ts"

text \<open>
  The disjunction of the alternatives finished so far (the last one first) and of the
  current one.
\<close>

definition disjunction :: "regex list \<Rightarrow> terms \<Rightarrow> regex" where
  "disjunction alts ts = foldl (\<lambda>acc a. Alt a acc) (alternative ts) alts"

definition close_group :: "group_kind \<Rightarrow> regex \<Rightarrow> regex" where
  "close_group k r = (case k of Capture n \<Rightarrow> Group n r | NonCapture \<Rightarrow> r)"

fun lazy :: "regex \<Rightarrow> regex" where
  "lazy (Star r g) = Star r False"
| "lazy (Plus r g) = Plus r False"
| "lazy (Opt r g) = Opt r False"
| "lazy r = r"

text \<open>
  A quantifier character after the terms \<open>ts\<close>; \<^const>\<open>None\<close> where there is nothing
  to repeat, which is a \<open>SyntaxError\<close>.
\<close>

definition quantify :: "char \<Rightarrow> terms \<Rightarrow> terms option" where
  "quantify q ts =
     (case ts of
        [] \<Rightarrow> None
      | t # ts' \<Rightarrow>
          (case snd t of
             Atom \<Rightarrow> Some (((if q = CHR ''*'' then Star (fst t) True
                              else if q = CHR ''+'' then Plus (fst t) True
                              else Opt (fst t) True), Quantified) # ts')
           | Quantified \<Rightarrow> (if q = CHR ''?'' then Some ((lazy (fst t), Closed) # ts') else None)
           | Closed \<Rightarrow> None))"

text \<open>
  The outcome of parsing a source: a pattern; a \<open>SyntaxError\<close>; or a source that uses
  a part of the language outside this embedding (a character class, a brace, a group
  opening with \<open>(?\<close> other than \<open>(?:\<close>, an escape of a character that is not a syntax
  character).
\<close>

datatype parsed = Pattern regex | Throws | Outside

text \<open>
  \<open>parse_loop g stack alts ts source\<close>: \<open>g\<close> is the number of the next capturing
  group, \<open>stack\<close> the groups that are open, each with the alternatives and terms that
  stood before it, \<open>alts\<close> the finished alternatives of the innermost open group and
  \<open>ts\<close> the terms of its current alternative.
\<close>

function parse_loop :: "nat \<Rightarrow> (group_kind \<times> regex list \<times> terms) list \<Rightarrow> regex list \<Rightarrow> terms \<Rightarrow> string
    \<Rightarrow> parsed" where
  "parse_loop g stack alts ts [] = (if stack = [] then Pattern (disjunction alts ts) else Throws)"
| "parse_loop g stack alts ts (c # cs) =
     (if c = CHR ''('' then
        (if take 2 cs = ''?:'' then parse_loop g ((NonCapture, alts, ts) # stack) [] [] (drop 2 cs)
         else if take 1 cs = ''?'' then Outside
         else parse_loop (Suc g) ((Capture g, alts, ts) # stack) [] [] cs)
      else if c = CHR '')'' then
        (case stack of
           [] \<Rightarrow> Throws
         | fr # stack' \<Rightarrow>
             parse_loop g stack' (fst (snd fr))
               ((close_group (fst fr) (disjunction alts ts), Atom) # snd (snd fr)) cs)
      else if c = CHR ''|'' then parse_loop g stack (alternative ts # alts) [] cs
      else if c = CHR ''*'' \<or> c = CHR ''+'' \<or> c = CHR ''?'' then
        (case quantify c ts of None \<Rightarrow> Throws | Some ts' \<Rightarrow> parse_loop g stack alts ts' cs)
      else if c = CHR ''^'' then parse_loop g stack alts ((AssertStart, Closed) # ts) cs
      else if c = CHR ''$'' then parse_loop g stack alts ((AssertEnd, Closed) # ts) cs
      else if c = CHR ''.'' then parse_loop g stack alts ((AnyChar, Atom) # ts) cs
      else if c = CHR 0x5C then
        (case cs of
           [] \<Rightarrow> Throws
         | d # cs' \<Rightarrow>
             (if syntax_char d \<or> d = CHR ''/'' then parse_loop g stack alts ((Char d, Atom) # ts) cs'
              else Outside))
      else if c = CHR ''['' \<or> c = CHR '']'' \<or> c = CHR ''{'' \<or> c = CHR ''}'' then Outside
      else parse_loop g stack alts ((Char c, Atom) # ts) cs)"
  by pat_completeness auto
termination
  by (relation "measure (\<lambda>(g, stack, alts, ts, s). length s)") auto

text \<open>
  A pattern object as the Walker uses it, through \<open>name.match(re)\<close> and the first
  group of the result: \<^const>\<open>None\<close> for \<open>null\<close> (no match), and for a match the text
  of the first group, \<^const>\<open>None\<close> for \<open>undefined\<close> when that group took no part.
\<close>

type_synonym pattern = "string \<Rightarrow> string option option"

text \<open>
  \<open>new RegExp(source)\<close>; \<^const>\<open>None\<close> when it throws a \<open>SyntaxError\<close>. For a source
  outside the embedded part of the language the result is what the engine of the
  host gives, a parameter of the model.
\<close>

type_synonym host_RegExp = "string \<Rightarrow> pattern option"

definition RegExp_new :: "host_RegExp \<Rightarrow> string \<Rightarrow> pattern option" where
  "RegExp_new host source =
     (case parse_loop 1 [] [] [] source of
        Pattern r \<Rightarrow> Some (\<lambda>s. map_option (\<lambda>caps. map_of caps 1) (search r s s))
      | Throws \<Rightarrow> None
      | Outside \<Rightarrow> host source)"

section \<open>The data model\<close>

text \<open>
  A JavaScript \<open>Map\<close> with string keys keeps its entries in insertion order, one entry
  per key: a list of pairs. \<open>set\<close> overwrites the value of a key that is present, in
  its place, and adds a new key at the end.
\<close>

type_synonym 'v js_map = "(string \<times> 'v) list"

fun Map_set :: "'v js_map \<Rightarrow> string \<Rightarrow> 'v \<Rightarrow> 'v js_map" where
  "Map_set [] k v = [(k, v)]"
| "Map_set ((k', v') # m) k v = (if k' = k then (k, v) # m else (k', v') # Map_set m k v)"

definition Map_has :: "'v js_map \<Rightarrow> string \<Rightarrow> bool" where
  "Map_has m k = (k \<in> set (map fst m))"

definition Map_get :: "'v js_map \<Rightarrow> string \<Rightarrow> 'v option" where
  "Map_get m k = map_of m k"

definition Map_delete :: "'v js_map \<Rightarrow> string \<Rightarrow> 'v js_map" where
  "Map_delete m k = filter (\<lambda>e. fst e \<noteq> k) m"

text \<open>\<open>new Map(entries)\<close>: the entries are set one after the other.\<close>

definition Map_new :: "(string \<times> 'v) list \<Rightarrow> 'v js_map" where
  "Map_new entries = foldl (\<lambda>m e. Map_set m (fst e) (snd e)) [] entries"

text \<open>A JavaScript \<open>Set\<close> of strings, in insertion order.\<close>

definition Set_add :: "string list \<Rightarrow> string \<Rightarrow> string list" where
  "Set_add s x = (if x \<in> set s then s else s @ [x])"

definition Set_new :: "string list \<Rightarrow> string list" where
  "Set_new xs = foldl Set_add [] xs"

text \<open>
  The \<open>info\<close> object of one file. \<open>ext\<close> is \<open>null\<close> for a name the filename pattern does
  not match; \<open>tag\<close>, \<open>scale\<close> and \<open>device\<close> are \<^const>\<open>None\<close> when the property is absent
  or \<open>undefined\<close>.
\<close>

record file_info =
  info_name :: string
  info_ext :: "string option"
  info_src :: string
  info_dest :: string
  info_tag :: "string option"
  info_scale :: "string option"
  info_device :: "string option"

record Result =
  appIcons :: "file_info js_map"
  cssFiles :: "file_info js_map"
  jsFiles :: "file_info js_map"
  launchImages :: "file_info js_map"
  launchLogos :: "file_info js_map"
  imageAssets :: "file_info js_map"
  resourcesToCopy :: "file_info js_map"
  htmlJsFiles :: "string list"

text \<open>\<open>new Result()\<close>.\<close>

definition Result_new :: Result where
  "Result_new =
     \<lparr>appIcons = [], cssFiles = [], jsFiles = [], launchImages = [], launchLogos = [],
      imageAssets = [], resourcesToCopy = [], htmlJsFiles = []\<rparr>"

text \<open>
  \<open>dontProcessJsFilesReferencedFromHTML\<close>: the body of the loop for one \<open>file\<close>, and the
  loop over the set.
\<close>

definition dontProcess_step :: "Result \<Rightarrow> string \<Rightarrow> Result" where
  "dontProcess_step r file =
     (if Map_has (jsFiles r) file then
        (case Map_get (jsFiles r) file of
           Some v \<Rightarrow> r\<lparr>resourcesToCopy := Map_set (resourcesToCopy r) file v,
                      jsFiles := Map_delete (jsFiles r) file\<rparr>
         | None \<Rightarrow> r)
      else r)"

definition dontProcessJsFilesReferencedFromHTML :: "Result \<Rightarrow> Result" where
  "dontProcessJsFilesReferencedFromHTML r = foldl dontProcess_step r (htmlJsFiles r)"

text \<open>
  \<open>Result.merge\<close>. For one map field: the non-empty maps of the results, reduced from
  the new Result's empty map by \<open>new Map([...combined, ...list])\<close>; the same for the set.
\<close>

definition merge_maps :: "'v js_map list \<Rightarrow> 'v js_map" where
  "merge_maps ms =
     (let maps = filter (\<lambda>m. length m \<noteq> 0) ms
      in if length maps \<noteq> 0 then foldl (\<lambda>combined list. Map_new (combined @ list)) [] maps
         else [])"

definition merge_sets :: "string list list \<Rightarrow> string list" where
  "merge_sets ss =
     (let sets = filter (\<lambda>s. length s \<noteq> 0) ss
      in if length sets \<noteq> 0 then foldl (\<lambda>combined list. Set_new (combined @ list)) [] sets
         else [])"

definition merge :: "Result list \<Rightarrow> Result" where
  "merge results =
     \<lparr>appIcons = merge_maps (map appIcons results),
      cssFiles = merge_maps (map cssFiles results),
      jsFiles = merge_maps (map jsFiles results),
      launchImages = merge_maps (map launchImages results),
      launchLogos = merge_maps (map launchLogos results),
      imageAssets = merge_maps (map imageAssets results),
      resourcesToCopy = merge_maps (map resourcesToCopy results),
      htmlJsFiles = merge_sets (map htmlJsFiles results)\<rparr>"

section \<open>The Walker\<close>

text \<open>
  A regular expression handed in by the caller (\<open>ignore\<close>, \<open>ignoreDirs\<close>, \<open>ignoreFiles\<close>)
  is only ever used through \<open>test\<close>: it is modelled as the predicate it tests, for a
  pattern without the \<open>g\<close> and \<open>y\<close> flags (whose \<open>test\<close> has no state). \<^const>\<open>None\<close> is a
  pattern that was not given.
\<close>

type_synonym RegExp = "string \<Rightarrow> bool"

definition ignored :: "RegExp option \<Rightarrow> string \<Rightarrow> bool" where
  "ignored re name = (case re of Some t \<Rightarrow> t name | None \<Rightarrow> False)"

record options =
  tiappIcon :: string
  options_useAppThinning :: bool
  options_ignoreDirs :: "RegExp option"
  options_ignoreFiles :: "RegExp option"

text \<open>
  \<open>appIconRegExp\<close> is \<^const>\<open>None\<close> for the \<open>null\<close> that \<open>tiappIcon.match\<close> gives on
  an icon name without extension.
\<close>

record Walker =
  useAppThinning :: bool
  ignoreDirs :: "RegExp option"
  ignoreFiles :: "RegExp option"
  appIconRegExp :: "pattern option"

text \<open>\<open>s.replace(/\./g, '\\.')\<close>: a backslash before every dot.\<close>

definition escape_dots :: "string \<Rightarrow> string" where
  "escape_dots s = concat (map (\<lambda>c. if c = CHR ''.'' then [CHR 0x5C, CHR ''.''] else [c]) s)"

text \<open>
  The source of the icon pattern,
  \<open>'^' + appIcon[1].replace(/\./g, '\\.') + '(.*)\\.png$'\<close>.
\<close>

definition appIcon_source :: "string \<Rightarrow> string" where
  "appIcon_source base = ''^'' @ escape_dots base @ ''(.*)'' @ [CHR 0x5C] @ ''.png$''"

text \<open>
  The constructor of \<open>Walker\<close>; \<^const>\<open>None\<close> when it throws, which it does when
  \<open>new RegExp\<close> does.
\<close>

definition Walker_constructor :: "host_RegExp \<Rightarrow> options \<Rightarrow> Walker option" where
  "Walker_constructor host opts =
     (case FILENAME_REGEXP (tiappIcon opts) of
        None \<Rightarrow>
          Some \<lparr>useAppThinning = options_useAppThinning opts, ignoreDirs = options_ignoreDirs opts,
                ignoreFiles = options_ignoreFiles opts, appIconRegExp = None\<rparr>
      | Some appIcon \<Rightarrow>
          (case RegExp_new host (appIcon_source (fst appIcon)) of
             None \<Rightarrow> None
           | Some re \<Rightarrow>
               Some \<lparr>useAppThinning = options_useAppThinning opts, ignoreDirs = options_ignoreDirs opts,
                     ignoreFiles = options_ignoreFiles opts, appIconRegExp = Some re\<rparr>))"

subsection \<open>Visiting a file\<close>

text \<open>
  The markup analyzer \<open>jsanalyze.analyzeHtmlFile(file, relPath)\<close> is a collaborator
  outside this code: a parameter, from the path of the file and its relative directory
  to the script paths the markup refers to.
\<close>

type_synonym analyzer = "string \<Rightarrow> string \<Rightarrow> string list"

text \<open>The seven maps of a Result.\<close>

datatype bucket = AppIcons | CssFiles | JsFiles | LaunchImages | LaunchLogos | ImageAssets | ResourcesToCopy

fun bucket_map :: "bucket \<Rightarrow> Result \<Rightarrow> file_info js_map" where
  "bucket_map AppIcons = appIcons"
| "bucket_map CssFiles = cssFiles"
| "bucket_map JsFiles = jsFiles"
| "bucket_map LaunchImages = launchImages"
| "bucket_map LaunchLogos = launchLogos"
| "bucket_map ImageAssets = imageAssets"
| "bucket_map ResourcesToCopy = resourcesToCopy"

text \<open>\<open>results.<bucket>.set(relPath, info)\<close>.\<close>

fun bucket_set :: "bucket \<Rightarrow> Result \<Rightarrow> string \<Rightarrow> file_info \<Rightarrow> Result" where
  "bucket_set AppIcons r k v = r\<lparr>appIcons := Map_set (appIcons r) k v\<rparr>"
| "bucket_set CssFiles r k v = r\<lparr>cssFiles := Map_set (cssFiles r) k v\<rparr>"
| "bucket_set JsFiles r k v = r\<lparr>jsFiles := Map_set (jsFiles r) k v\<rparr>"
| "bucket_set LaunchImages r k v = r\<lparr>launchImages := Map_set (launchImages r) k v\<rparr>"
| "bucket_set LaunchLogos r k v = r\<lparr>launchLogos := Map_set (launchLogos r) k v\<rparr>"
| "bucket_set ImageAssets r k v = r\<lparr>imageAssets := Map_set (imageAssets r) k v\<rparr>"
| "bucket_set ResourcesToCopy r k v = r\<lparr>resourcesToCopy := Map_set (resourcesToCopy r) k v\<rparr>"

text \<open>
  \<open>from.replace((origSrc || src) + '/', prefix ? prefix + '/' : '')\<close>, the key of the file
  in its map.
\<close>

definition relPath_of :: "string \<Rightarrow> string \<Rightarrow> string option \<Rightarrow> string option \<Rightarrow> string" where
  "relPath_of from src origSrc prefix =
     replace from (or_else origSrc src @ ''/'')
       (case prefix of Some p \<Rightarrow> (if p \<noteq> [] then p @ ''/'' else []) | None \<Rightarrow> [])"

text \<open>The \<open>info\<close> object \<open>_visitFile\<close> builds from \<open>name.match(FILENAME_REGEXP)\<close>.\<close>

definition info_of :: "string \<Rightarrow> string \<Rightarrow> string \<Rightarrow> file_info" where
  "info_of name from to =
     (let parts = FILENAME_REGEXP name
      in \<lparr>info_name = (case parts of Some (p1, p2) \<Rightarrow> p1 | None \<Rightarrow> name),
          info_ext = (case parts of Some (p1, p2) \<Rightarrow> Some p2 | None \<Rightarrow> None),
          info_src = from, info_dest = to,
          info_tag = None, info_scale = None, info_device = None\<rparr>)"

text \<open>
  The statements under \<open>case 'jpg'\<close>, which \<open>case 'png'\<close> falls through to: the launch
  logo, then the image asset of app thinning, then the plain resource.
\<close>

definition case_jpg :: "Walker \<Rightarrow> Result \<Rightarrow> string \<Rightarrow> string \<Rightarrow> file_info \<Rightarrow> Result" where
  "case_jpg W results name relPath info =
     (case LAUNCH_LOGO_REGEXP name of
        Some (m1, m2) \<Rightarrow>
          bucket_set LaunchLogos results relPath (info\<lparr>info_scale := m1, info_device := m2\<rparr>)
      | None \<Rightarrow>
          (if useAppThinning W \<and> \<not> BUNDLE_FILE_REGEXP relPath
           then bucket_set ImageAssets results relPath info
           else bucket_set ResourcesToCopy results relPath info))"

text \<open>
  The statements under \<open>case 'png'\<close>: the app icon and the launch image when \<open>origSrc\<close> is
  falsy, each ending the visit; otherwise on to \<open>case 'jpg'\<close>. \<open>icon_match\<close> is
  \<open>this.appIconRegExp && name.match(this.appIconRegExp)\<close>: \<^const>\<open>None\<close> when it is falsy, and
  the first group \<open>m[1]\<close> of the match otherwise.
\<close>

definition icon_match :: "Walker \<Rightarrow> string \<Rightarrow> string option option" where
  "icon_match W name = (case appIconRegExp W of Some re \<Rightarrow> re name | None \<Rightarrow> None)"

definition case_png :: "Walker \<Rightarrow> Result \<Rightarrow> string \<Rightarrow> string \<Rightarrow> file_info \<Rightarrow> string option \<Rightarrow> Result" where
  "case_png W results name relPath info origSrc =
     (if \<not> truthy origSrc then
        (case icon_match W name of
           Some m1 \<Rightarrow> bucket_set AppIcons results relPath (info\<lparr>info_tag := m1\<rparr>)
         | None \<Rightarrow>
             (if LAUNCH_IMAGE_REGEXP name then bucket_set LaunchImages results relPath info
              else case_jpg W results name relPath info))
      else case_jpg W results name relPath info)"

text \<open>
  The statements under \<open>case 'html'\<close>: every script the analyzer reports for the file
  is added to \<open>htmlJsFiles\<close>; then the default case.
\<close>

definition case_html :: "analyzer \<Rightarrow> Result \<Rightarrow> string \<Rightarrow> string \<Rightarrow> file_info \<Rightarrow> Result" where
  "case_html analyzeHtmlFile results from relPath info =
     bucket_set ResourcesToCopy
       (results\<lparr>htmlJsFiles :=
          foldl Set_add (htmlJsFiles results)
            (analyzeHtmlFile from (join_slash (butlast (split_slash relPath))))\<rparr>)
       relPath info"

text \<open>\<open>_visitFile\<close>; the updated \<open>results\<close> are returned.\<close>

definition visitFile :: "Walker \<Rightarrow> analyzer \<Rightarrow> Result \<Rightarrow> string \<Rightarrow> string \<Rightarrow> string \<Rightarrow> string
    \<Rightarrow> string option \<Rightarrow> string option \<Rightarrow> Result" where
  "visitFile W analyzeHtmlFile results from to name src origSrc prefix =
     (if ignored (ignoreFiles W) name then results
      else
        let info = info_of name from to;
            relPath = relPath_of from src origSrc prefix
        in (case info_ext info of
              None \<Rightarrow> bucket_set ResourcesToCopy results relPath info
            | Some e \<Rightarrow>
                if e = ''js'' then bucket_set JsFiles results relPath info
                else if e = ''css'' then bucket_set CssFiles results relPath info
                else if e = ''png'' then case_png W results name relPath info origSrc
                else if e = ''jpg'' then case_jpg W results name relPath info
                else if e = ''html'' then case_html analyzeHtmlFile results from relPath info
                else bucket_set ResourcesToCopy results relPath info))"

subsection \<open>The file system and the walk\<close>

text \<open>
  The file system is what \<open>fs.readdir\<close> and \<open>fs.stat\<close> answer: a directory entry is a
  file (anything that is neither a directory nor a symbolic link), a directory with
  its listing, a directory whose listing fails, a symbolic link with the entry
  \<open>fs.stat\<close> resolves it to, or a symbolic link on which \<open>fs.stat\<close> fails.
\<close>

datatype fs_error = FsError string

datatype node =
    File
  | Dir "(string \<times> node) list"
  | DirError fs_error
  | Symlink node
  | SymlinkError fs_error

text \<open>
  \<open>isDirectory()\<close> of a directory entry or of the result of \<open>fs.stat\<close> (which is never a
  symbolic link).
\<close>

fun isDirectory :: "node \<Rightarrow> bool" where
  "isDirectory (Dir l) = True"
| "isDirectory (DirError e) = True"
| "isDirectory n = False"

text \<open>
  \<open>_walkDir\<close>, \<open>Promise.all(list.map(...))\<close> and \<open>_visitListing\<close>. \<open>fs.readdir\<close> follows a
  symbolic link and fails on a file. A failure ends the walk with that failure.

  \<open>Promise.all\<close> starts the visits of all the entries of a listing at once. Each runs
  up to its first \<open>await\<close>: a plain file is set in its map at once, the entries of a
  subdirectory after the answer of its \<open>fs.readdir\<close>, and what stands behind a symbolic
  link after the answer of \<open>fs.stat\<close>, in the order in which the file system answers.
  The code fixes no order between these, and the embedding takes one schedule: the
  entries in the order of the listing, each one finished before the next. The
  schedule decides the order of the keys inside a \<open>Map\<close>, which record a key keeps
  when two files are given the same key, and which failure is reported when several
  occur. It decides neither which keys a map holds nor whether the walk fails, and
  the statements below about walks are about these.
\<close>

function (sequential) walkDir :: "Walker \<Rightarrow> analyzer \<Rightarrow> Result \<Rightarrow> node \<Rightarrow> string \<Rightarrow> string \<Rightarrow> RegExp option
      \<Rightarrow> string option \<Rightarrow> string option \<Rightarrow> fs_error + Result"
  and visitAll :: "Walker \<Rightarrow> analyzer \<Rightarrow> Result \<Rightarrow> (string \<times> node) list \<Rightarrow> string \<Rightarrow> string
      \<Rightarrow> RegExp option \<Rightarrow> string option \<Rightarrow> string option \<Rightarrow> fs_error + Result"
  and visitListing :: "Walker \<Rightarrow> analyzer \<Rightarrow> Result \<Rightarrow> string \<Rightarrow> node \<Rightarrow> string \<Rightarrow> string
      \<Rightarrow> RegExp option \<Rightarrow> string option \<Rightarrow> string option \<Rightarrow> fs_error + Result"
where
  "walkDir W A results (Dir list) src dest ignore origSrc prefix =
     visitAll W A results list src dest ignore origSrc prefix"
| "walkDir W A results (DirError e) src dest ignore origSrc prefix = Inl e"
| "walkDir W A results File src dest ignore origSrc prefix = Inl (FsError ''ENOTDIR'')"
| "walkDir W A results (Symlink t) src dest ignore origSrc prefix =
     walkDir W A results t src dest ignore origSrc prefix"
| "walkDir W A results (SymlinkError e) src dest ignore origSrc prefix = Inl e"
| "visitAll W A results [] src dest ignore origSrc prefix = Inr results"
| "visitAll W A results (dirent # list) src dest ignore origSrc prefix =
     (case visitListing W A results (fst dirent) (snd dirent) src dest ignore origSrc prefix of
        Inl e \<Rightarrow> Inl e
      | Inr results' \<Rightarrow> visitAll W A results' list src dest ignore origSrc prefix)"
| "visitListing W A results name dirent src dest ignore origSrc prefix =
     (if ignored ignore name then Inr results
      else
        let from = path_join src name;
            to = path_join dest name
        in (case dirent of
              SymlinkError e \<Rightarrow> Inl e
            | Symlink t \<Rightarrow>
                (case t of
                   Dir l \<Rightarrow>
                     (if ignored (ignoreDirs W) name then Inr results
                      else walkDir W A results t from to None (Some (or_else origSrc src)) prefix)
                 | DirError e \<Rightarrow>
                     (if ignored (ignoreDirs W) name then Inr results
                      else walkDir W A results t from to None (Some (or_else origSrc src)) prefix)
                 | _ \<Rightarrow> Inr (visitFile W A results from to name src origSrc prefix))
            | Dir l \<Rightarrow>
                (if ignored (ignoreDirs W) name then Inr results
                 else walkDir W A results dirent from to None (Some (or_else origSrc src)) prefix)
            | DirError e \<Rightarrow>
                (if ignored (ignoreDirs W) name then Inr results
                 else walkDir W A results dirent from to None (Some (or_else origSrc src)) prefix)
            | File \<Rightarrow> Inr (visitFile W A results from to name src origSrc prefix)))"
  by pat_completeness auto
termination
  by (relation "measure (\<lambda>x. case x of
        Inl (W, A, r, nd, rest) \<Rightarrow> 2 * size nd
      | Inr (Inl (W, A, r, l, rest)) \<Rightarrow> 2 * size_list (size_prod (\<lambda>n. 0) size) l + 1
      | Inr (Inr (W, A, r, name, nd, rest)) \<Rightarrow> 2 * size nd + 1)") auto

text \<open>
  \<open>fs.exists(src)\<close>: the root is there unless nothing has its path or it is a
  symbolic link that does not resolve.
\<close>

fun exists_root :: "node option \<Rightarrow> bool" where
  "exists_root None = False"
| "exists_root (Some (SymlinkError e)) = False"
| "exists_root (Some n) = True"

text \<open>\<open>walk\<close>; \<open>root\<close> is what the file system holds at \<open>src\<close>.\<close>

definition walk :: "Walker \<Rightarrow> analyzer \<Rightarrow> node option \<Rightarrow> string \<Rightarrow> string \<Rightarrow> RegExp option
    \<Rightarrow> string option \<Rightarrow> string option \<Rightarrow> fs_error + Result" where
  "walk W A root src dest ignore origSrc prefix =
     (if \<not> exists_root root then Inr Result_new
      else (case root of
              Some n \<Rightarrow> walkDir W A Result_new n src dest ignore origSrc prefix
            | None \<Rightarrow> Inr Result_new))"

subsection \<open>What one visit does, as functions of the file\<close>

text \<open>
  The bucket \<open>_visitFile\<close> chooses for a file that is not ignored, the record it stores
  there and the scripts it adds to \<open>htmlJsFiles\<close>, each written as a function of the
  arguments of the visit. Lemma \<open>visitFile_eq\<close> below proves that \<^const>\<open>visitFile\<close> does
  exactly this.
\<close>

definition bucket_of :: "Walker \<Rightarrow> string \<Rightarrow> string \<Rightarrow> string option \<Rightarrow> bucket" where
  "bucket_of W name relPath origSrc =
     (case FILENAME_REGEXP name of
        None \<Rightarrow> ResourcesToCopy
      | Some (b, e) \<Rightarrow>
          if e = ''js'' then JsFiles
          else if e = ''css'' then CssFiles
          else if e = ''png'' \<and> \<not> truthy origSrc \<and> icon_match W name \<noteq> None then AppIcons
          else if e = ''png'' \<and> \<not> truthy origSrc \<and> LAUNCH_IMAGE_REGEXP name then LaunchImages
          else if e = ''png'' \<or> e = ''jpg'' then
            (if LAUNCH_LOGO_REGEXP name \<noteq> None then LaunchLogos
             else if useAppThinning W \<and> \<not> BUNDLE_FILE_REGEXP relPath then ImageAssets
             else ResourcesToCopy)
          else ResourcesToCopy)"

definition record_of :: "Walker \<Rightarrow> string \<Rightarrow> string \<Rightarrow> string \<Rightarrow> string option \<Rightarrow> file_info" where
  "record_of W name from to origSrc =
     (case FILENAME_REGEXP name of
        None \<Rightarrow> info_of name from to
      | Some (b, e) \<Rightarrow>
          if e = ''png'' \<and> \<not> truthy origSrc \<and> icon_match W name \<noteq> None
          then (info_of name from to)\<lparr>info_tag := (case icon_match W name of Some m1 \<Rightarrow> m1 | None \<Rightarrow> None)\<rparr>
          else if e = ''png'' \<and> \<not> truthy origSrc \<and> LAUNCH_IMAGE_REGEXP name then info_of name from to
          else if e = ''png'' \<or> e = ''jpg'' then
            (case LAUNCH_LOGO_REGEXP name of
               Some (m1, m2) \<Rightarrow> (info_of name from to)\<lparr>info_scale := m1, info_device := m2\<rparr>
             | None \<Rightarrow> info_of name from to)
          else info_of name from to)"

definition scripts_of :: "analyzer \<Rightarrow> string \<Rightarrow> string \<Rightarrow> string \<Rightarrow> string list" where
  "scripts_of A name from relPath =
     (if info_ext (info_of name from []) = Some ''html''
      then A from (join_slash (butlast (split_slash relPath))) else [])"

subsection \<open>The invariant of the representation\<close>

text \<open>
  A \<open>Map\<close> holds a key once and a \<open>Set\<close> an element once: the lists that stand for them
  have no key and no element twice.
\<close>

definition Result_ok :: "Result \<Rightarrow> bool" where
  "Result_ok r =
     (distinct (map fst (appIcons r)) \<and> distinct (map fst (cssFiles r)) \<and>
      distinct (map fst (jsFiles r)) \<and> distinct (map fst (launchImages r)) \<and>
      distinct (map fst (launchLogos r)) \<and> distinct (map fst (imageAssets r)) \<and>
      distinct (map fst (resourcesToCopy r)) \<and> distinct (htmlJsFiles r))"

subsection \<open>Where a visit puts a file\<close>

text \<open>
  \<open>placed b k v r r'\<close>: going from the results \<open>r\<close> to \<open>r'\<close>, the record \<open>v\<close> has been
  set at the key \<open>k\<close> of the map \<open>b\<close>, which now holds it there, and nothing else has
  changed: the other six maps and \<open>htmlJsFiles\<close> are as they were.
\<close>

definition buckets :: "bucket list" where
  "buckets = [AppIcons, CssFiles, JsFiles, LaunchImages, LaunchLogos, ImageAssets, ResourcesToCopy]"

definition placed :: "bucket \<Rightarrow> string \<Rightarrow> file_info \<Rightarrow> Result \<Rightarrow> Result \<Rightarrow> bool" where
  "placed b k v r r' =
     (Map_get (bucket_map b r') k = Some v \<and>
      list_all (\<lambda>b'. bucket_map b' r' = (if b' = b then Map_set (bucket_map b' r) k v else bucket_map b' r))
        buckets \<and>
      htmlJsFiles r' = htmlJsFiles r)"

text \<open>
  The parts of the name of a launch logo that stand for a scale and for a device,
  each empty when there is none.
\<close>

definition scale_part :: "string option \<Rightarrow> string" where
  "scale_part sc = (case sc of None \<Rightarrow> [] | Some n \<Rightarrow> ''@'' @ n @ ''x'')"

definition device_part :: "string option \<Rightarrow> string" where
  "device_part dv = (case dv of None \<Rightarrow> [] | Some d \<Rightarrow> ''~'' @ d)"



fun dot_suffixes :: "string \<Rightarrow> string list" where
  "dot_suffixes [] = [[]]"
| "dot_suffixes (c # cs) = (if dot c then dot_suffixes cs else []) @ [c # cs]"

subsection \<open>Well-formed trees and paths\<close>


fun names_in :: "(string \<Rightarrow> bool) \<Rightarrow> node \<Rightarrow> bool" where
  "names_in N (Dir l) = list_all (\<lambda>e. N (fst e) \<and> names_in N (snd e)) l"
| "names_in N (Symlink t) = names_in N t"
| "names_in N File = True"
| "names_in N (DirError e) = True"
| "names_in N (SymlinkError e) = True"


fun stat :: "node \<Rightarrow> fs_error + node" where
  "stat (SymlinkError e) = Inl e"
| "stat (Symlink t) = Inr t"
| "stat d = Inr d"



subsection \<open>What a walk meets\<close>






section \<open>Properties\<close>

subsection \<open>Patterns\<close>


lemma lit_Some_iff: "lit p s = Some r \<longleftrightarrow> s = p @ r"
  by (induction p s rule: lit.induct) auto

lemma dot_star_sound:
  "dot_star k s = Some (g, r) \<Longrightarrow> \<exists>rest. s = g @ rest \<and> list_all dot g \<and> k rest = Some r"
proof (induction s arbitrary: g r)
  case Nil
  then show ?case by (auto split: option.splits)
next
  case (Cons c cs)
  show ?case
  proof (cases "if dot c then dot_star k cs else None")
    case None
    with Cons.prems show ?thesis by (auto split: option.splits)
  next
    case (Some a)
    obtain g' r' where a: "a = (g', r')" by (cases a)
    from Some a have d: "dot c" and ds: "dot_star k cs = Some (g', r')"
      by (auto split: if_splits)
    from Cons.prems Some a have "g = c # g'" "r = r'" by auto
    with Cons.IH[OF ds] d show ?thesis by auto
  qed
qed

lemma dot_star_complete:
  "list_all dot g \<Longrightarrow> k rest \<noteq> None \<Longrightarrow> dot_star k (g @ rest) \<noteq> None"
proof (induction g)
  case Nil
  then show ?case by (cases rest) (auto split: option.splits)
next
  case (Cons c g)
  then show ?case by (auto split: option.splits)
qed

lemma dot_star_none:
  "(\<And>g rest. s = g @ rest \<Longrightarrow> list_all dot g \<Longrightarrow> k rest = None) \<Longrightarrow> dot_star k s = None"
proof (rule ccontr)
  assume h: "\<And>g rest. s = g @ rest \<Longrightarrow> list_all dot g \<Longrightarrow> k rest = None"
  assume "dot_star k s \<noteq> None"
  then obtain g r where "dot_star k s = Some (g, r)" by auto
  from dot_star_sound[OF this] h show False by auto
qed

lemma dot_star_unique:
  assumes "list_all dot g" "k rest = Some r"
    and u: "\<And>g' rest'. g @ rest = g' @ rest' \<Longrightarrow> k rest' \<noteq> None \<Longrightarrow> g' = g"
  shows "dot_star k (g @ rest) = Some (g, r)"
proof -
  from dot_star_complete[OF assms(1), of k rest] assms(2)
  obtain g' r' where s: "dot_star k (g @ rest) = Some (g', r')" by auto
  from dot_star_sound[OF s] obtain rest' where
    e: "g @ rest = g' @ rest'" and k: "k rest' = Some r'" by auto
  from u[OF e] k have "g' = g" by auto
  with e k assms(2) s show ?thesis by auto
qed

lemma word_char_not_dot: "word_char c \<Longrightarrow> c \<noteq> CHR ''.''"
  by (auto simp: word_char_def)

lemma last_dot_unique:
  assumes "g @ CHR ''.'' # w = g' @ CHR ''.'' # w'" "CHR ''.'' \<notin> set w" "CHR ''.'' \<notin> set w'"
  shows "g = g' \<and> w = w'"
  using assms
proof (induction g arbitrary: g')
  case Nil
  then show ?case by (cases g') auto
next
  case (Cons a g)
  then show ?case by (cases g') auto
qed

lemma filename_ext_Some: "filename_ext r = Some w \<longleftrightarrow> r = CHR ''.'' # w \<and> w \<noteq> [] \<and> list_all word_char w"
  by (auto simp: filename_ext_def split: list.splits)

lemma FILENAME_REGEXP_iff:
  "FILENAME_REGEXP s = Some (b, e) \<longleftrightarrow>
     s = b @ CHR ''.'' # e \<and> list_all dot b \<and> e \<noteq> [] \<and> list_all word_char e"
proof
  assume "FILENAME_REGEXP s = Some (b, e)"
  then have "dot_star filename_ext s = Some (b, e)"
    by (simp add: FILENAME_REGEXP_def)
  from dot_star_sound[OF this] show "s = b @ CHR ''.'' # e \<and> list_all dot b \<and> e \<noteq> [] \<and> list_all word_char e"
    by (auto simp: filename_ext_Some)
next
  assume a: "s = b @ CHR ''.'' # e \<and> list_all dot b \<and> e \<noteq> [] \<and> list_all word_char e"
  have nd: "CHR ''.'' \<notin> set e" using a word_char_not_dot by (auto simp: list_all_iff)
  have "dot_star filename_ext (b @ CHR ''.'' # e) = Some (b, e)"
  proof (rule dot_star_unique)
    show "list_all dot b" using a by simp
    show "filename_ext (CHR ''.'' # e) = Some e" using a by (simp add: filename_ext_Some)
  next
    fix g' rest' assume e: "b @ CHR ''.'' # e = g' @ rest'" and k: "filename_ext rest' \<noteq> None"
    from k obtain w where w: "rest' = CHR ''.'' # w" "list_all word_char w"
      by (auto simp: filename_ext_Some)
    then have "CHR ''.'' \<notin> set w" using word_char_not_dot by (auto simp: list_all_iff)
    with last_dot_unique[of b e g' w] e w nd show "g' = b" by auto
  qed
  then show "FILENAME_REGEXP s = Some (b, e)"
    using a by (simp add: FILENAME_REGEXP_def)
qed

lemma FILENAME_REGEXP_None_iff:
  "FILENAME_REGEXP s = None \<longleftrightarrow>
     (\<forall>b e. s = b @ CHR ''.'' # e \<longrightarrow> \<not> (list_all dot b \<and> e \<noteq> [] \<and> list_all word_char e))"
  using FILENAME_REGEXP_iff[of s] by (metis not_Some_eq surj_pair option.distinct(1))

subsection \<open>Maps, buckets and one visit\<close>

lemma map_of_Map_set: "map_of (Map_set m k v) = (map_of m)(k \<mapsto> v)"
  by (induction m k v rule: Map_set.induct) (auto simp: fun_eq_iff)

lemma keys_Map_set: "fst ` set (Map_set m k v) = insert k (fst ` set m)"
  by (induction m k v rule: Map_set.induct) auto

lemma Map_has_iff: "Map_has m k \<longleftrightarrow> map_of m k \<noteq> None"
  by (simp add: Map_has_def map_of_eq_None_iff)

lemma Map_has_Map_set: "Map_has (Map_set m k v) k' \<longleftrightarrow> k' = k \<or> Map_has m k'"
  by (simp add: Map_has_iff map_of_Map_set)

lemma Map_get_Map_set: "Map_get (Map_set m k v) k' = (if k' = k then Some v else Map_get m k')"
  by (simp add: Map_get_def map_of_Map_set)

lemma distinct_Map_set: "distinct (map fst m) \<Longrightarrow> distinct (map fst (Map_set m k v))"
proof (induction m k v rule: Map_set.induct)
  case (1 k v)
  then show ?case by simp
next
  case (2 k' v' m k v)
  have "fst ` set (Map_set m k v) = insert k (fst ` set m)" by (rule keys_Map_set)
  with 2 show ?case by auto
qed

lemma bucket_map_bucket_set:
  "bucket_map b (bucket_set b' r k v) = (if b = b' then Map_set (bucket_map b r) k v else bucket_map b r)"
  by (cases b; cases b') simp_all

lemma htmlJsFiles_bucket_set: "htmlJsFiles (bucket_set b r k v) = htmlJsFiles r"
  by (cases b) simp_all

lemma bucket_map_htmlJsFiles_update: "bucket_map b (r\<lparr>htmlJsFiles := H\<rparr>) = bucket_map b r"
  by (cases b) simp_all

lemma info_ext_info_of: "info_ext (info_of name from to) = map_option snd (FILENAME_REGEXP name)"
  by (auto simp: info_of_def Let_def split: option.splits)

lemma info_name_info_of:
  "info_name (info_of name from to) = (case FILENAME_REGEXP name of Some (b, e) \<Rightarrow> b | None \<Rightarrow> name)"
  by (auto simp: info_of_def Let_def split: option.splits)

lemma info_src_info_of: "info_src (info_of name from to) = from" "info_dest (info_of name from to) = to"
  by (auto simp: info_of_def Let_def)

lemma visitFile_ignored:
  "ignored (ignoreFiles W) name \<Longrightarrow> visitFile W A results from to name src origSrc prefix = results"
  by (simp add: visitFile_def)

lemma visitFile_eq:
  assumes "\<not> ignored (ignoreFiles W) name"
  shows "visitFile W A results from to name src origSrc prefix =
    bucket_set (bucket_of W name (relPath_of from src origSrc prefix) origSrc)
      (results\<lparr>htmlJsFiles := foldl Set_add (htmlJsFiles results)
                  (scripts_of A name from (relPath_of from src origSrc prefix))\<rparr>)
      (relPath_of from src origSrc prefix) (record_of W name from to origSrc)"
proof (cases "FILENAME_REGEXP name")
  case None
  then show ?thesis using assms
    by (simp add: visitFile_def Let_def info_ext_info_of bucket_of_def record_of_def scripts_of_def)
next
  case (Some a)
  obtain b e where a: "a = (b, e)" by (cases a)
  consider "e = ''js''" | "e = ''css''" | "e = ''png''" | "e = ''jpg''" | "e = ''html''"
    | "e \<noteq> ''js'' \<and> e \<noteq> ''css'' \<and> e \<noteq> ''png'' \<and> e \<noteq> ''jpg'' \<and> e \<noteq> ''html''" by blast
  then show ?thesis
  proof cases
    case 1
    then show ?thesis using assms Some a
      by (simp add: visitFile_def Let_def info_ext_info_of bucket_of_def record_of_def scripts_of_def)
  next
    case 2
    then show ?thesis using assms Some a
      by (simp add: visitFile_def Let_def info_ext_info_of bucket_of_def record_of_def scripts_of_def)
  next
    case 3
    then show ?thesis using assms Some a
      by (auto simp: visitFile_def Let_def info_ext_info_of bucket_of_def record_of_def scripts_of_def
          case_png_def case_jpg_def split: option.splits)
  next
    case 4
    then show ?thesis using assms Some a
      by (auto simp: visitFile_def Let_def info_ext_info_of bucket_of_def record_of_def scripts_of_def
          case_jpg_def split: option.splits)
  next
    case 5
    then show ?thesis using assms Some a
      by (simp add: visitFile_def Let_def info_ext_info_of bucket_of_def record_of_def scripts_of_def
          case_html_def)
  next
    case 6
    then show ?thesis using assms Some a
      by (simp add: visitFile_def Let_def info_ext_info_of bucket_of_def record_of_def scripts_of_def)
  qed
qed

lemma record_of_name_ext:
  "info_name (record_of W name from to origSrc) = info_name (info_of name from to)"
  "info_ext (record_of W name from to origSrc) = info_ext (info_of name from to)"
  "info_src (record_of W name from to origSrc) = from"
  "info_dest (record_of W name from to origSrc) = to"
  by (auto simp: record_of_def info_src_info_of split: option.splits)

subsection \<open>The launch logo, the bundle pattern and the icon pattern\<close>

lemma opt_SomeD:
  "opt p k s = Some (c, x) \<Longrightarrow>
     (\<exists>c' r. p s = Some (c', r) \<and> k r = Some x \<and> c = Some c') \<or> (k s = Some x \<and> c = None)"
  by (auto simp: opt_def split: option.splits)

lemma logo_scale_SomeD:
  "logo_scale s = Some (n, r) \<Longrightarrow> (s = ''@2x'' @ r \<and> n = ''2'') \<or> (s = ''@3x'' @ r \<and> n = ''3'')"
  by (auto simp: logo_scale_def split: list.splits if_splits)

lemma logo_device_SomeD:
  "logo_device s = Some (d, r) \<Longrightarrow>
     (s = ''~iphone'' @ r \<and> d = ''iphone'') \<or> (s = ''~ipad'' @ r \<and> d = ''ipad'')"
  unfolding logo_device_def
  by (auto simp: lit_Some_iff split: option.splits)

lemma launch_logo_shape:
  assumes "LAUNCH_LOGO_REGEXP name = Some (m1, m2)"
  shows "\<exists>sc dv ex. name = ''LaunchLogo'' @ sc @ dv @ CHR ''.'' # ex \<and>
           (sc = [] \<or> sc = ''@2x'' \<or> sc = ''@3x'') \<and>
           (dv = [] \<or> dv = ''~iphone'' \<or> dv = ''~ipad'') \<and> (ex = ''png'' \<or> ex = ''jpg'')"
proof -
  let ?k = "\<lambda>e. if e = ''.png'' \<or> e = ''.jpg'' then Some () else None"
  from assms obtain r where r: "name = ''LaunchLogo'' @ r"
    and o: "opt logo_scale (opt logo_device ?k) r = Some (m1, m2, ())"
    unfolding LAUNCH_LOGO_REGEXP_def
    by (auto simp: lit_Some_iff split: option.splits)
  have fin: "\<And>u. ?k u = Some () \<Longrightarrow> \<exists>ex. u = CHR ''.'' # ex \<and> (ex = ''png'' \<or> ex = ''jpg'')"
    by (auto split: if_splits)
  have dev: "\<And>t. opt logo_device ?k t = Some (m2, ()) \<Longrightarrow>
      \<exists>dv ex. t = dv @ CHR ''.'' # ex \<and> (dv = [] \<or> dv = ''~iphone'' \<or> dv = ''~ipad'') \<and>
        (ex = ''png'' \<or> ex = ''jpg'')"
  proof -
    fix t assume "opt logo_device ?k t = Some (m2, ())"
    from opt_SomeD[OF this] show "\<exists>dv ex. t = dv @ CHR ''.'' # ex \<and>
        (dv = [] \<or> dv = ''~iphone'' \<or> dv = ''~ipad'') \<and> (ex = ''png'' \<or> ex = ''jpg'')"
    proof
      assume "\<exists>c' u. logo_device t = Some (c', u) \<and> ?k u = Some () \<and> m2 = Some c'"
      then obtain c' u where d: "logo_device t = Some (c', u)" and k: "?k u = Some ()" by blast
      from fin[OF k] obtain ex where ex: "u = CHR ''.'' # ex" "ex = ''png'' \<or> ex = ''jpg''" by blast
      from logo_device_SomeD[OF d] have "t = ''~iphone'' @ u \<or> t = ''~ipad'' @ u" by blast
      with ex show ?thesis by blast
    next
      assume "?k t = Some () \<and> m2 = None"
      then have "?k t = Some ()" by blast
      from fin[OF this] obtain ex where "t = [] @ CHR ''.'' # ex" "ex = ''png'' \<or> ex = ''jpg''" by auto
      then show ?thesis by blast
    qed
  qed
  from opt_SomeD[OF o] show ?thesis
  proof
    assume "\<exists>c' t. logo_scale r = Some (c', t) \<and> opt logo_device ?k t = Some (m2, ()) \<and> m1 = Some c'"
    then obtain c' t where s: "logo_scale r = Some (c', t)" and d: "opt logo_device ?k t = Some (m2, ())"
      by blast
    from dev[OF d] obtain dv ex where t: "t = dv @ CHR ''.'' # ex"
      "dv = [] \<or> dv = ''~iphone'' \<or> dv = ''~ipad''" "ex = ''png'' \<or> ex = ''jpg''" by blast
    from logo_scale_SomeD[OF s] have "r = ''@2x'' @ t \<or> r = ''@3x'' @ t" by blast
    then obtain sc where "r = sc @ t" "sc = ''@2x'' \<or> sc = ''@3x''" by blast
    with r t show ?thesis by blast
  next
    assume "opt logo_device ?k r = Some (m2, ()) \<and> m1 = None"
    then have "opt logo_device ?k r = Some (m2, ())" by blast
    from dev[OF this] obtain dv ex where "r = dv @ CHR ''.'' # ex"
      "dv = [] \<or> dv = ''~iphone'' \<or> dv = ''~ipad''" "ex = ''png'' \<or> ex = ''jpg''" by blast
    with r have "name = ''LaunchLogo'' @ [] @ dv @ CHR ''.'' # ex" by simp
    with \<open>dv = [] \<or> dv = ''~iphone'' \<or> dv = ''~ipad''\<close> \<open>ex = ''png'' \<or> ex = ''jpg''\<close>
    show ?thesis by blast
  qed
qed

lemma launch_logo_ext:
  assumes "LAUNCH_LOGO_REGEXP name = Some (m1, m2)"
  shows "\<exists>b e. FILENAME_REGEXP name = Some (b, e) \<and> (e = ''png'' \<or> e = ''jpg'')"
proof -
  from launch_logo_shape[OF assms] obtain sc dv ex where
    n: "name = (''LaunchLogo'' @ sc @ dv) @ CHR ''.'' # ex"
    and sc: "sc = [] \<or> sc = ''@2x'' \<or> sc = ''@3x''"
    and dv: "dv = [] \<or> dv = ''~iphone'' \<or> dv = ''~ipad''"
    and ex: "ex = ''png'' \<or> ex = ''jpg''" by auto
  have d1: "list_all dot ''LaunchLogo''" by (simp add: dot_def)
  have d2: "list_all dot sc" using sc by (auto simp: dot_def)
  have d3: "list_all dot dv" using dv by (auto simp: dot_def)
  have w: "ex \<noteq> [] \<and> list_all word_char ex" using ex by (auto simp: word_char_def)
  from d1 d2 d3 have "list_all dot (''LaunchLogo'' @ sc @ dv)" by simp
  with n w have "FILENAME_REGEXP name = Some (''LaunchLogo'' @ sc @ dv, ex)"
    by (simp only: FILENAME_REGEXP_iff) simp
  with ex show ?thesis by blast
qed

lemma launch_logo_not_image:
  assumes "LAUNCH_LOGO_REGEXP name = Some m"
  shows "\<not> LAUNCH_IMAGE_REGEXP name"
proof
  assume "LAUNCH_IMAGE_REGEXP name"
  then obtain r1 where "name = ''Default'' @ r1"
    unfolding LAUNCH_IMAGE_REGEXP_def by (auto simp: lit_Some_iff split: option.splits)
  moreover from assms obtain r2 where "name = ''LaunchLogo'' @ r2"
    unfolding LAUNCH_LOGO_REGEXP_def by (auto simp: lit_Some_iff split: option.splits)
  ultimately show False by simp
qed

lemma htmlJsFiles_same: "r\<lparr>htmlJsFiles := htmlJsFiles r\<rparr> = r"
  by simp

lemma scripts_of_not_html:
  "FILENAME_REGEXP name = Some (b, e) \<Longrightarrow> e \<noteq> ''html'' \<Longrightarrow> scripts_of A name from' rp = []"
  by (simp add: scripts_of_def info_ext_info_of)

lemma visitFile_plain:
  assumes "\<not> ignored (ignoreFiles W) name" "FILENAME_REGEXP name = Some (b, e)" "e \<noteq> ''html''"
  shows "visitFile W A results from' to name src origSrc prefix =
    bucket_set (bucket_of W name (relPath_of from' src origSrc prefix) origSrc) results
      (relPath_of from' src origSrc prefix) (record_of W name from' to origSrc)"
  by (simp add: visitFile_eq[OF assms(1)] scripts_of_not_html[OF assms(2,3)])

lemma bundle_rest_Some: "bundle_rest r = Some u \<longleftrightarrow> (\<exists>d y. r = ''.bundle/'' @ d # y \<and> dot d)"
  unfolding bundle_rest_def
  by (auto simp: lit_Some_iff split: option.splits list.splits)

lemma bundle_at_iff:
  "bundle_at s \<longleftrightarrow> (\<exists>c g d y. s = c # g @ ''.bundle/'' @ d # y \<and> dot c \<and> list_all dot g \<and> dot d)"
proof
  assume "bundle_at s"
  then have ne: "dot_plus bundle_rest s \<noteq> None" by (simp add: bundle_at_def)
  then obtain c cs where s: "s = c # cs" by (cases s) (auto simp: dot_plus_def)
  from ne s have c: "dot c" and "dot_star bundle_rest cs \<noteq> None"
    by (auto simp: dot_plus_def split: if_splits option.splits)
  then obtain g r where "dot_star bundle_rest cs = Some (g, r)" by auto
  from dot_star_sound[OF this] obtain rest where cs: "cs = g @ rest" and g: "list_all dot g"
    and k: "bundle_rest rest = Some r" by blast
  from k obtain d y where "rest = ''.bundle/'' @ d # y" "dot d" by (auto simp: bundle_rest_Some)
  with s c cs g show "\<exists>c g d y. s = c # g @ ''.bundle/'' @ d # y \<and> dot c \<and> list_all dot g \<and> dot d"
    by blast
next
  assume "\<exists>c g d y. s = c # g @ ''.bundle/'' @ d # y \<and> dot c \<and> list_all dot g \<and> dot d"
  then obtain c g d y where s: "s = c # g @ (''.bundle/'' @ d # y)" and c: "dot c"
    and g: "list_all dot g" and d: "dot d" by auto
  have "bundle_rest (''.bundle/'' @ d # y) = Some ()" using d by (subst bundle_rest_Some) blast
  then have "bundle_rest (''.bundle/'' @ d # y) \<noteq> None" by simp
  from dot_star_complete[where k = bundle_rest and rest = "''.bundle/'' @ d # y", OF g this]
  have "dot_star bundle_rest (g @ ''.bundle/'' @ d # y) \<noteq> None" .
  then show "bundle_at s" unfolding bundle_at_def dot_plus_def using s c
    by (auto split: option.splits)
qed

lemma BUNDLE_search: "BUNDLE_FILE_REGEXP p \<longleftrightarrow> (\<exists>x s. p = x @ s \<and> bundle_at s)"
proof (induction p)
  case Nil
  then show ?case by simp
next
  case (Cons a p)
  show ?case
  proof
    assume "BUNDLE_FILE_REGEXP (a # p)"
    then have "bundle_at (a # p) \<or> BUNDLE_FILE_REGEXP p" by simp
    then show "\<exists>x s. a # p = x @ s \<and> bundle_at s"
    proof
      assume "bundle_at (a # p)"
      then have "a # p = [] @ (a # p) \<and> bundle_at (a # p)" by simp
      then show ?thesis by blast
    next
      assume "BUNDLE_FILE_REGEXP p"
      with Cons.IH obtain x s where "p = x @ s" "bundle_at s" by blast
      then have "a # p = (a # x) @ s \<and> bundle_at s" by simp
      then show ?thesis by blast
    qed
  next
    assume "\<exists>x s. a # p = x @ s \<and> bundle_at s"
    then obtain x s where e: "a # p = x @ s" and b: "bundle_at s" by blast
    show "BUNDLE_FILE_REGEXP (a # p)"
    proof (cases x)
      case Nil
      with e b have "bundle_at (a # p)" by simp
      then show ?thesis by simp
    next
      case (Cons a' x')
      with e have "p = x' @ s" by simp
      with b Cons.IH have "BUNDLE_FILE_REGEXP p" by blast
      then show ?thesis by simp
    qed
  qed
qed

lemma BUNDLE_FILE_REGEXP_iff:
  "BUNDLE_FILE_REGEXP p \<longleftrightarrow> (\<exists>x c d y. p = x @ c # ''.bundle/'' @ d # y \<and> dot c \<and> dot d)"
proof
  assume "BUNDLE_FILE_REGEXP p"
  then obtain x s where p: "p = x @ s" and "bundle_at s" by (auto simp: BUNDLE_search)
  then obtain c g d y where s: "s = (c # g) @ ''.bundle/'' @ d # y" and cg: "list_all dot (c # g)" and d: "dot d"
    by (auto simp: bundle_at_iff)
  have sn: "c # g = butlast (c # g) @ [last (c # g)]" by simp
  have "last (c # g) \<in> set (c # g)" by (rule last_in_set) simp
  with cg have "dot (last (c # g))" unfolding list_all_iff by blast
  with sn obtain u c' where "c # g = u @ [c']" "dot c'" by blast
  with p s have "p = (x @ u) @ c' # ''.bundle/'' @ d # y" by simp
  with \<open>dot c'\<close> d show "\<exists>x c d y. p = x @ c # ''.bundle/'' @ d # y \<and> dot c \<and> dot d" by blast
next
  assume "\<exists>x c d y. p = x @ c # ''.bundle/'' @ d # y \<and> dot c \<and> dot d"
  then obtain x c d y where p: "p = x @ (c # [] @ ''.bundle/'' @ d # y)" and c: "dot c" and d: "dot d"
    by auto
  have "list_all dot []" by simp
  with c d have "\<exists>c' g d' y'. c # [] @ ''.bundle/'' @ d # y = c' # g @ ''.bundle/'' @ d' # y' \<and>
      dot c' \<and> list_all dot g \<and> dot d'" by blast
  then have "bundle_at (c # [] @ ''.bundle/'' @ d # y)" by (simp only: bundle_at_iff)
  with p have "\<exists>x s. p = x @ s \<and> bundle_at s" by blast
  then show "BUNDLE_FILE_REGEXP p" by (simp only: BUNDLE_search)
qed

lemma lit_end_Some: "lit_end p s = Some u \<longleftrightarrow> s = p"
  by (simp add: lit_end_def)

lemma dot_star_lit_end:
  "dot_star (lit_end p) s = Some (g, u) \<longleftrightarrow> s = g @ p \<and> list_all dot g"
proof
  assume "dot_star (lit_end p) s = Some (g, u)"
  from dot_star_sound[OF this] show "s = g @ p \<and> list_all dot g" by (auto simp: lit_end_Some)
next
  assume a: "s = g @ p \<and> list_all dot g"
  have "dot_star (lit_end p) (g @ p) = Some (g, ())"
  proof (rule dot_star_unique)
    show "list_all dot g" using a by simp
    show "lit_end p p = Some ()" by (simp add: lit_end_def)
  next
    fix g' rest' assume "g @ p = g' @ rest'" "lit_end p rest' \<noteq> None"
    then show "g' = g" by (auto simp: lit_end_def split: if_splits)
  qed
  with a show "dot_star (lit_end p) s = Some (g, u)" by simp
qed

lemma bucket_set_other_icons: "b \<noteq> AppIcons \<Longrightarrow> appIcons (bucket_set b r k v) = appIcons r"
  by (cases b) simp_all

lemma bucket_set_other_images: "b \<noteq> LaunchImages \<Longrightarrow> launchImages (bucket_set b r k v) = launchImages r"
  by (cases b) simp_all

lemma bucket_of_nested:
  assumes "truthy origSrc"
  shows "bucket_of W name rp origSrc \<noteq> AppIcons \<and> bucket_of W name rp origSrc \<noteq> LaunchImages"
proof (cases "FILENAME_REGEXP name")
  case None
  then show ?thesis by (simp add: bucket_of_def)
next
  case (Some a)
  obtain b e where "a = (b, e)" by (cases a)
  with Some assms show ?thesis by (simp add: bucket_of_def)
qed

lemma Default_png_name: "FILENAME_REGEXP ''Default.png'' = Some (''Default'', ''png'')"
  by code_simp

lemma Default_png_image: "LAUNCH_IMAGE_REGEXP ''Default.png''"
  by code_simp

lemma Default_png_logo: "LAUNCH_LOGO_REGEXP ''Default.png'' = None"
  by code_simp

lemma launch_logo_captures:
  assumes "LAUNCH_LOGO_REGEXP name = Some (m1, m2)"
  shows "(m1 = None \<or> m1 = Some ''2'' \<or> m1 = Some ''3'') \<and>
         (m2 = None \<or> m2 = Some ''iphone'' \<or> m2 = Some ''ipad'') \<and>
         (name = ''LaunchLogo'' @ scale_part m1 @ device_part m2 @ ''.png'' \<or>
          name = ''LaunchLogo'' @ scale_part m1 @ device_part m2 @ ''.jpg'')"
proof -
  let ?k = "\<lambda>e. if e = ''.png'' \<or> e = ''.jpg'' then Some () else None"
  from assms obtain r where r: "name = ''LaunchLogo'' @ r"
    and o: "opt logo_scale (opt logo_device ?k) r = Some (m1, m2, ())"
    unfolding LAUNCH_LOGO_REGEXP_def
    by (auto simp: lit_Some_iff split: option.splits)
  from opt_SomeD[OF o] have "\<exists>t. r = scale_part m1 @ t \<and> (m1 = None \<or> m1 = Some ''2'' \<or> m1 = Some ''3'') \<and>
      opt logo_device ?k t = Some (m2, ())"
  proof
    assume "\<exists>c' t. logo_scale r = Some (c', t) \<and> opt logo_device ?k t = Some (m2, ()) \<and> m1 = Some c'"
    then obtain c' t where s: "logo_scale r = Some (c', t)" and d: "opt logo_device ?k t = Some (m2, ())"
      and m: "m1 = Some c'" by blast
    from logo_scale_SomeD[OF s] m have "r = scale_part m1 @ t \<and> (m1 = Some ''2'' \<or> m1 = Some ''3'')"
      by (auto simp: scale_part_def)
    with d show ?thesis by blast
  next
    assume "opt logo_device ?k r = Some (m2, ()) \<and> m1 = None"
    then show ?thesis by (auto simp: scale_part_def)
  qed
  then obtain t where t: "r = scale_part m1 @ t" and m1: "m1 = None \<or> m1 = Some ''2'' \<or> m1 = Some ''3''"
    and d: "opt logo_device ?k t = Some (m2, ())" by blast
  from opt_SomeD[OF d] have "\<exists>u. t = device_part m2 @ u \<and>
      (m2 = None \<or> m2 = Some ''iphone'' \<or> m2 = Some ''ipad'') \<and> ?k u = Some ()"
  proof
    assume "\<exists>c' u. logo_device t = Some (c', u) \<and> ?k u = Some () \<and> m2 = Some c'"
    then obtain c' u where s: "logo_device t = Some (c', u)" and k: "?k u = Some ()"
      and m: "m2 = Some c'" by blast
    from logo_device_SomeD[OF s] m have "t = device_part m2 @ u \<and> (m2 = Some ''iphone'' \<or> m2 = Some ''ipad'')"
      by (auto simp: device_part_def)
    with k show ?thesis by blast
  next
    assume "?k t = Some () \<and> m2 = None"
    then show ?thesis by (auto simp: device_part_def)
  qed
  then obtain u where u: "t = device_part m2 @ u" and m2: "m2 = None \<or> m2 = Some ''iphone'' \<or> m2 = Some ''ipad''"
    and k: "?k u = Some ()" by blast
  from k have "u = ''.png'' \<or> u = ''.jpg''" by (auto split: if_splits)
  with r t u m1 m2 show ?thesis by auto
qed

lemma launch_logo_names:
  assumes "m1 = None \<or> m1 = Some ''2'' \<or> m1 = Some ''3''"
    and "m2 = None \<or> m2 = Some ''iphone'' \<or> m2 = Some ''ipad''"
    and "ex = ''.png'' \<or> ex = ''.jpg''"
  shows "LAUNCH_LOGO_REGEXP (''LaunchLogo'' @ scale_part m1 @ device_part m2 @ ex) = Some (m1, m2)"
  using assms
  by (elim disjE; simp add: LAUNCH_LOGO_REGEXP_def opt_def logo_scale_def logo_device_def scale_part_def
      device_part_def)

lemma launch_logo_iff:
  "LAUNCH_LOGO_REGEXP name = Some (m1, m2) \<longleftrightarrow>
     (m1 = None \<or> m1 = Some ''2'' \<or> m1 = Some ''3'') \<and>
     (m2 = None \<or> m2 = Some ''iphone'' \<or> m2 = Some ''ipad'') \<and>
     (name = ''LaunchLogo'' @ scale_part m1 @ device_part m2 @ ''.png'' \<or>
      name = ''LaunchLogo'' @ scale_part m1 @ device_part m2 @ ''.jpg'')"
proof
  assume "LAUNCH_LOGO_REGEXP name = Some (m1, m2)"
  then show "(m1 = None \<or> m1 = Some ''2'' \<or> m1 = Some ''3'') \<and>
     (m2 = None \<or> m2 = Some ''iphone'' \<or> m2 = Some ''ipad'') \<and>
     (name = ''LaunchLogo'' @ scale_part m1 @ device_part m2 @ ''.png'' \<or>
      name = ''LaunchLogo'' @ scale_part m1 @ device_part m2 @ ''.jpg'')"
    by (rule launch_logo_captures)
next
  assume a: "(m1 = None \<or> m1 = Some ''2'' \<or> m1 = Some ''3'') \<and>
     (m2 = None \<or> m2 = Some ''iphone'' \<or> m2 = Some ''ipad'') \<and>
     (name = ''LaunchLogo'' @ scale_part m1 @ device_part m2 @ ''.png'' \<or>
      name = ''LaunchLogo'' @ scale_part m1 @ device_part m2 @ ''.jpg'')"
  then obtain ex where "ex = ''.png'' \<or> ex = ''.jpg''" "name = ''LaunchLogo'' @ scale_part m1 @ device_part m2 @ ex"
    by blast
  with a launch_logo_names[of m1 m2 ex] show "LAUNCH_LOGO_REGEXP name = Some (m1, m2)" by simp
qed

subsection \<open>The pattern built for the app icon\<close>








lemma length_dot_suffixes: "t \<in> set (dot_suffixes s) \<Longrightarrow> length t \<le> length s"
  by (induction s) (auto split: if_splits)









subsection \<open>The reclassification, the merge and the ignore pattern\<close>

lemma map_of_Map_delete: "map_of (Map_delete m k) = (map_of m)(k := None)"
  by (induction m) (auto simp: Map_delete_def fun_eq_iff)

lemma Map_has_Map_delete: "Map_has (Map_delete m k) k' \<longleftrightarrow> k' \<noteq> k \<and> Map_has m k'"
  by (simp add: Map_has_iff map_of_Map_delete)

lemma set_foldl_Set_add: "set (foldl Set_add s xs) = set s \<union> set xs"
  by (induction xs arbitrary: s) (auto simp: Set_add_def)

lemma distinct_foldl_Set_add: "distinct s \<Longrightarrow> distinct (foldl Set_add s xs)"
  by (induction xs arbitrary: s) (auto simp: Set_add_def)

lemma dontProcess_step_fields:
  "appIcons (dontProcess_step r x) = appIcons r"
  "cssFiles (dontProcess_step r x) = cssFiles r"
  "launchImages (dontProcess_step r x) = launchImages r"
  "launchLogos (dontProcess_step r x) = launchLogos r"
  "imageAssets (dontProcess_step r x) = imageAssets r"
  "htmlJsFiles (dontProcess_step r x) = htmlJsFiles r"
  by (simp_all add: dontProcess_step_def split: option.splits)

lemma dontProcess_step_js:
  "map_of (jsFiles (dontProcess_step r x)) = (map_of (jsFiles r))(x := None)"
  by (auto simp: dontProcess_step_def Map_has_iff Map_get_def map_of_Map_delete fun_eq_iff
      split: option.splits)

lemma dontProcess_step_rtc:
  "map_of (resourcesToCopy (dontProcess_step r x)) =
     (case map_of (jsFiles r) x of
        Some v \<Rightarrow> (map_of (resourcesToCopy r))(x \<mapsto> v)
      | None \<Rightarrow> map_of (resourcesToCopy r))"
  by (auto simp: dontProcess_step_def Map_has_iff Map_get_def map_of_Map_set split: option.splits)

lemma dontProcess_step_same:
  "\<not> Map_has (jsFiles r) x \<Longrightarrow> dontProcess_step r x = r"
  by (simp add: dontProcess_step_def)

lemma dontProcess_loop_fields:
  "appIcons (foldl dontProcess_step r xs) = appIcons r \<and>
   cssFiles (foldl dontProcess_step r xs) = cssFiles r \<and>
   launchImages (foldl dontProcess_step r xs) = launchImages r \<and>
   launchLogos (foldl dontProcess_step r xs) = launchLogos r \<and>
   imageAssets (foldl dontProcess_step r xs) = imageAssets r \<and>
   htmlJsFiles (foldl dontProcess_step r xs) = htmlJsFiles r"
  by (induction xs arbitrary: r) (simp_all add: dontProcess_step_fields)

lemma dontProcess_loop_js:
  "map_of (jsFiles (foldl dontProcess_step r xs)) p =
     (if p \<in> set xs then None else map_of (jsFiles r) p)"
  by (induction xs arbitrary: r) (simp_all add: dontProcess_step_js)

lemma dontProcess_loop_rtc:
  "map_of (resourcesToCopy (foldl dontProcess_step r xs)) p =
     (if p \<in> set xs \<and> map_of (jsFiles r) p \<noteq> None then map_of (jsFiles r) p
      else map_of (resourcesToCopy r) p)"
proof (induction xs arbitrary: r)
  case Nil
  then show ?case by simp
next
  case (Cons x xs)
  show ?case
    by (cases "map_of (jsFiles r) x")
       (auto simp: Cons.IH dontProcess_step_js dontProcess_step_rtc)
qed

lemma dontProcess_loop_same:
  "\<forall>x\<in>set xs. \<not> Map_has (jsFiles r) x \<Longrightarrow> foldl dontProcess_step r xs = r"
  by (induction xs arbitrary: r) (simp_all add: dontProcess_step_same)

lemma html_name:
  assumes "info_ext (info_of name from' to) = Some ''html''"
  shows "\<exists>b. FILENAME_REGEXP name = Some (b, ''html'')"
  using assms by (auto simp: info_ext_info_of)

lemma visitFile_html:
  assumes n: "\<not> ignored (ignoreFiles W) name"
    and h: "info_ext (info_of name from' to) = Some ''html''"
  shows "visitFile W A results from' to name src origSrc prefix =
    bucket_set ResourcesToCopy
      (results\<lparr>htmlJsFiles := foldl Set_add (htmlJsFiles results)
         (A from' (join_slash (butlast (split_slash (relPath_of from' src origSrc prefix)))))\<rparr>)
      (relPath_of from' src origSrc prefix) (info_of name from' to)"
  using n h by (simp add: visitFile_def Let_def case_html_def)

lemma map_of_foldl_Map_set:
  "map_of (foldl (\<lambda>m e. Map_set m (fst e) (snd e)) m0 es) = map_of m0 ++ map_of (rev es)"
proof (induction es arbitrary: m0)
  case Nil
  then show ?case by simp
next
  case (Cons e es)
  have "map_of (Map_set m0 (fst e) (snd e)) ++ map_of (rev es) =
      map_of m0 ++ (map_of [e] ++ map_of (rev es))"
    by (cases e) (auto simp: map_of_Map_set fun_eq_iff map_add_def split: option.splits)
  then show ?case by (simp add: Cons.IH)
qed

lemma map_of_Map_new: "map_of (Map_new es) = map_of (rev es)"
  by (simp add: Map_new_def map_of_foldl_Map_set)

lemma distinct_foldl_Map_set:
  "distinct (map fst m0) \<Longrightarrow> distinct (map fst (foldl (\<lambda>m e. Map_set m (fst e) (snd e)) m0 es))"
  by (induction es arbitrary: m0) (simp_all add: distinct_Map_set)

lemma distinct_Map_new: "distinct (map fst (Map_new es))"
  by (simp add: Map_new_def distinct_foldl_Map_set)

lemma map_of_rev_distinct: "distinct (map fst m) \<Longrightarrow> map_of (rev m) = map_of m"
  by (rule map_of_inject_set[THEN iffD2]) (simp_all add: rev_map[symmetric])

lemma map_of_Map_new_append:
  assumes "distinct (map fst c)" "distinct (map fst l)"
  shows "map_of (Map_new (c @ l)) = map_of c ++ map_of l"
  using assms by (simp add: map_of_Map_new map_of_rev_distinct)

lemma merge_fold:
  assumes "distinct (map fst c)" "\<forall>m\<in>set ms. distinct (map fst m)"
  shows "map_of (foldl (\<lambda>combined list. Map_new (combined @ list)) c ms) =
      foldl (++) (map_of c) (map map_of ms)"
  using assms
proof (induction ms arbitrary: c)
  case Nil
  then show ?case by simp
next
  case (Cons m ms)
  have d: "distinct (map fst (Map_new (c @ m)))" by (rule distinct_Map_new)
  from Cons.prems have "map_of (Map_new (c @ m)) = map_of c ++ map_of m"
    by (simp add: map_of_Map_new_append)
  with Cons.IH[OF d] Cons.prems show ?case by simp
qed

lemma foldl_map_add_filter:
  "foldl (++) a (map map_of (filter (\<lambda>m. length m \<noteq> 0) ms)) = foldl (++) a (map map_of ms)"
  by (induction ms arbitrary: a) simp_all

lemma map_of_merge_maps:
  assumes "\<forall>m\<in>set ms. distinct (map fst m)"
  shows "map_of (merge_maps ms) = foldl (++) Map.empty (map map_of ms)"
proof -
  let ?maps = "filter (\<lambda>m. length m \<noteq> 0) ms"
  have d: "\<forall>m\<in>set ?maps. distinct (map fst m)" using assms by simp
  have "map_of (merge_maps ms) = foldl (++) Map.empty (map map_of ?maps)"
  proof (cases "?maps = []")
    case True
    then show ?thesis by (simp add: merge_maps_def)
  next
    case False
    then have "merge_maps ms = foldl (\<lambda>combined list. Map_new (combined @ list)) [] ?maps"
      by (simp add: merge_maps_def Let_def)
    then show ?thesis using merge_fold[of "[]" ?maps] d by simp
  qed
  then show ?thesis by (simp only: foldl_map_add_filter)
qed

lemma set_Set_new: "set (Set_new xs) = set xs"
  by (simp add: Set_new_def set_foldl_Set_add)

lemma set_merge_fold:
  "set (foldl (\<lambda>combined list. Set_new (combined @ list)) c ss) = set c \<union> (\<Union>s\<in>set ss. set s)"
  by (induction ss arbitrary: c) (auto simp: set_Set_new)

lemma set_merge_sets: "set (merge_sets ss) = (\<Union>s\<in>set ss. set s)"
proof -
  let ?sets = "filter (\<lambda>s. length s \<noteq> 0) ss"
  have u: "(\<Union>s\<in>set ?sets. set s) = (\<Union>s\<in>set ss. set s)" by auto
  show ?thesis
  proof (cases "?sets = []")
    case True
    then have "\<forall>s\<in>set ss. s = []" by (simp add: filter_empty_conv)
    with True show ?thesis by (simp add: merge_sets_def)
  next
    case False
    then have "merge_sets ss = foldl (\<lambda>combined list. Set_new (combined @ list)) [] ?sets"
      by (simp add: merge_sets_def Let_def)
    then show ?thesis using u by (simp add: set_merge_fold)
  qed
qed

lemma bucket_map_merge: "bucket_map b (merge rs) = merge_maps (map (bucket_map b) rs)"
  by (cases b) (simp_all add: merge_def comp_def)

lemma Result_ok_bucket: "Result_ok r \<Longrightarrow> distinct (map fst (bucket_map b r))"
  by (cases b) (simp_all add: Result_ok_def)

lemma distinct_merge_fold:
  "distinct (map fst c) \<Longrightarrow>
     distinct (map fst (foldl (\<lambda>combined list. Map_new (combined @ list)) c ms))"
  by (induction ms arbitrary: c) (simp_all add: distinct_Map_new)

lemma distinct_merge_maps: "distinct (map fst (merge_maps ms))"
  by (simp add: merge_maps_def Let_def distinct_merge_fold)

lemma distinct_Set_new: "distinct (Set_new xs)"
  by (simp add: Set_new_def distinct_foldl_Set_add)

lemma distinct_merge_sets_fold:
  "distinct c \<Longrightarrow> distinct (foldl (\<lambda>combined list. Set_new (combined @ list)) c ss)"
  by (induction ss arbitrary: c) (simp_all add: distinct_Set_new)

lemma distinct_merge_sets: "distinct (merge_sets ss)"
  by (simp add: merge_sets_def Let_def distinct_merge_sets_fold)

lemma Result_ok_merge: "Result_ok (merge rs)"
  by (simp add: Result_ok_def merge_def distinct_merge_maps distinct_merge_sets)

lemma map_of_bucket_merge:
  assumes "\<forall>r\<in>set rs. Result_ok r"
  shows "map_of (bucket_map bk (merge rs)) =
      foldl (++) Map.empty (map (\<lambda>r. map_of (bucket_map bk r)) rs)"
proof -
  have "\<forall>m\<in>set (map (bucket_map bk) rs). distinct (map fst m)"
    using assms by (auto simp: Result_ok_bucket)
  from map_of_merge_maps[OF this] show ?thesis
    by (simp add: bucket_map_merge comp_def)
qed

lemma map_of_bucket_merge2:
  assumes "Result_ok a" "Result_ok b"
  shows "map_of (bucket_map bk (merge [a, b])) = map_of (bucket_map bk a) ++ map_of (bucket_map bk b)"
  using map_of_bucket_merge[of "[a, b]" bk] assms by simp

lemma visitListing_ignore_cong:
  assumes "ignored ignore name = ignored ignore' name"
  shows "visitListing W A results name dirent src dest ignore origSrc prefix =
         visitListing W A results name dirent src dest ignore' origSrc prefix"
  by (simp only: visitListing.simps assms)

lemma visitAll_ignore_cong:
  assumes "\<forall>d\<in>set list. ignored ignore (fst d) = ignored ignore' (fst d)"
  shows "visitAll W A results list src dest ignore origSrc prefix =
         visitAll W A results list src dest ignore' origSrc prefix"
  using assms
proof (induction list arbitrary: results)
  case Nil
  then show ?case by simp
next
  case (Cons d list)
  from Cons.prems have e: "ignored ignore (fst d) = ignored ignore' (fst d)" by simp
  from Cons.prems have r: "\<forall>d\<in>set list. ignored ignore (fst d) = ignored ignore' (fst d)" by simp
  have "visitListing W A results (fst d) (snd d) src dest ignore origSrc prefix =
        visitListing W A results (fst d) (snd d) src dest ignore' origSrc prefix"
    by (rule visitListing_ignore_cong[OF e])
  then show ?case
    by (simp only: visitAll.simps Cons.IH[OF r])
qed

subsection \<open>Invariants of a walk\<close>

lemma visitListing_eq:
  "visitListing W A results name dirent src dest ignore origSrc prefix =
     (if ignored ignore name then Inr results
      else (case stat dirent of
              Inl e \<Rightarrow> Inl e
            | Inr d \<Rightarrow>
                if isDirectory d then
                  (if ignored (ignoreDirs W) name then Inr results
                   else walkDir W A results d (path_join src name) (path_join dest name) None
                          (Some (or_else origSrc src)) prefix)
                else Inr (visitFile W A results (path_join src name) (path_join dest name) name src
                            origSrc prefix)))"
proof (cases dirent)
  case (Symlink t)
  then show ?thesis by (cases t) (simp_all add: Let_def del: walkDir.simps)
qed (simp_all add: Let_def del: walkDir.simps)

declare walkDir.simps [simp del] visitAll.simps [simp del] visitListing.simps [simp del]

lemma visitAll_Cons_Inr:
  assumes "visitAll W A r ((n, d) # l) src dest ig origSrc prefix = Inr r'"
  obtains r1 where "visitListing W A r n d src dest ig origSrc prefix = Inr r1"
    and "visitAll W A r1 l src dest ig origSrc prefix = Inr r'"
proof (cases "visitListing W A r n d src dest ig origSrc prefix")
  case (Inl e)
  with assms show ?thesis by (simp add: visitAll.simps)
next
  case (Inr r1)
  with assms have "visitAll W A r1 l src dest ig origSrc prefix = Inr r'"
    by (simp add: visitAll.simps)
  with Inr that show ?thesis by blast
qed

text \<open>
  What one entry of a listing does to the results, when the visit succeeds: nothing,
  the visit of a file, or the walk of a directory.
\<close>

lemma visitListing_Inr_cases:
  assumes "visitListing W A r n d src dest ig origSrc prefix = Inr r1"
  obtains "r1 = r"
  | "r1 = visitFile W A r (path_join src n) (path_join dest n) n src origSrc prefix"
  | d' where "stat d = Inr d'" "isDirectory d'"
      "walkDir W A r d' (path_join src n) (path_join dest n) None (Some (or_else origSrc src)) prefix = Inr r1"
proof (cases "ignored ig n")
  case True
  with assms have "r1 = r" by (simp add: visitListing_eq)
  then show ?thesis by (rule that(1))
next
  case ni: False
  show ?thesis
  proof (cases "stat d")
    case (Inl x)
    with assms ni show ?thesis by (simp add: visitListing_eq)
  next
    case (Inr d')
    show ?thesis
    proof (cases "isDirectory d'")
      case False
      with assms ni Inr have "r1 = visitFile W A r (path_join src n) (path_join dest n) n src origSrc prefix"
        by (simp add: visitListing_eq)
      then show ?thesis by (rule that(2))
    next
      case True
      show ?thesis
      proof (cases "ignored (ignoreDirs W) n")
        case True
        with assms ni Inr \<open>isDirectory d'\<close> have "r1 = r" by (simp add: visitListing_eq)
        then show ?thesis by (rule that(1))
      next
        case False
        with assms ni Inr True have "walkDir W A r d' (path_join src n) (path_join dest n) None
            (Some (or_else origSrc src)) prefix = Inr r1"
          by (simp add: visitListing_eq)
        with Inr True show ?thesis by (rule that(3))
      qed
    qed
  qed
qed

lemma stat_names_in: "stat d = Inr d' \<Longrightarrow> names_in N d \<Longrightarrow> names_in N d'"
  by (cases d) auto

lemma stat_size: "stat d = Inr d' \<Longrightarrow> size d' \<le> size d"
  by (cases d) auto

lemma size_entry: "(n, d) \<in> set l \<Longrightarrow> size d < size (Dir l)"
  by (induction l) auto

lemma isDirectory_walkDir_cases:
  assumes "isDirectory d"
  obtains l where "d = Dir l" | e where "d = DirError e"
  using assms by (cases d) auto

lemma walk_invariant:
  fixes I :: "Result \<Rightarrow> bool" and C :: "string \<Rightarrow> string option \<Rightarrow> bool" and N :: "string \<Rightarrow> bool"
  assumes step: "\<And>r name src origSrc dest. I r \<Longrightarrow> C src origSrc \<Longrightarrow> N name \<Longrightarrow>
        I (visitFile W A r (path_join src name) (path_join dest name) name src origSrc prefix)"
    and desc: "\<And>src origSrc name. C src origSrc \<Longrightarrow> N name \<Longrightarrow>
        C (path_join src name) (Some (or_else origSrc src))"
  shows "names_in N nd \<Longrightarrow> I r \<Longrightarrow> C src origSrc \<Longrightarrow>
      walkDir W A r nd src dest ig origSrc prefix = Inr r' \<Longrightarrow> I r'"
proof (induction "size nd" arbitrary: nd r src dest ig origSrc r' rule: less_induct)
  case less
  show ?case
  proof (cases nd)
    case File
    with less.prems(4) show ?thesis by (simp add: walkDir.simps)
  next
    case (DirError e)
    with less.prems(4) show ?thesis by (simp add: walkDir.simps)
  next
    case (SymlinkError e)
    with less.prems(4) show ?thesis by (simp add: walkDir.simps)
  next
    case (Symlink t)
    with less.prems have "names_in N t" "walkDir W A r t src dest ig origSrc prefix = Inr r'"
      by (simp_all add: walkDir.simps)
    moreover have "size t < size nd" using Symlink by simp
    ultimately show ?thesis using less.hyps less.prems(2,3) by blast
  next
    case (Dir l)
    with less.prems(4) have v: "visitAll W A r l src dest ig origSrc prefix = Inr r'"
      by (simp add: walkDir.simps)
    from Dir less.prems(1) have nl: "list_all (\<lambda>e. N (fst e) \<and> names_in N (snd e)) l" by simp
    have "\<And>r. set k \<subseteq> set l \<Longrightarrow> I r \<Longrightarrow> visitAll W A r k src dest ig origSrc prefix = Inr r' \<Longrightarrow> I r'"
      for k
    proof (induction k)
      case Nil
      then show ?case by (simp add: visitAll.simps)
    next
      case (Cons e k)
      obtain n d where e: "e = (n, d)" by (cases e)
      from Cons.prems(1) e have mem: "(n, d) \<in> set l" by simp
      with nl have Nn: "N n" and nd: "names_in N d" by (auto simp: list_all_iff)
      from Cons.prems(3) e obtain r1 where
        v1: "visitListing W A r n d src dest ig origSrc prefix = Inr r1"
        and v2: "visitAll W A r1 k src dest ig origSrc prefix = Inr r'"
        by (auto elim: visitAll_Cons_Inr)
      from v1 have "I r1"
      proof (cases rule: visitListing_Inr_cases)
        case 1
        with Cons.prems(2) show ?thesis by simp
      next
        case 2
        with step[OF Cons.prems(2) less.prems(3) Nn] show ?thesis by simp
      next
        case (3 d')
        from stat_size[OF 3(1)] size_entry[OF mem] Dir have "size d' < size nd" by simp
        moreover from stat_names_in[OF 3(1) nd] have "names_in N d'" .
        moreover note desc[OF less.prems(3) Nn]
        ultimately show ?thesis using less.hyps[of d' r "path_join src n" "Some (or_else origSrc src)"]
            Cons.prems(2) 3(3) by blast
      qed
      moreover from Cons.prems(1) have "set k \<subseteq> set l" by simp
      ultimately show ?case using Cons.IH v2 by blast
    qed
    from this[of l r] less.prems(2) v show ?thesis by simp
  qed
qed

subsection \<open>Joining plain paths\<close>













subsection \<open>key\<close>


subsection \<open>The keys of a walk\<close>




lemma names_in_True: "names_in (\<lambda>n. True) nd"
proof (induction "size nd" arbitrary: nd rule: less_induct)
  case less
  show ?case
  proof (cases nd)
    case (Dir l)
    have "\<And>e. e \<in> set l \<Longrightarrow> names_in (\<lambda>n. True) (snd e)"
    proof -
      fix e assume "e \<in> set l"
      then have "(fst e, snd e) \<in> set l" by simp
      from size_entry[OF this] Dir less show "names_in (\<lambda>n. True) (snd e)" by simp
    qed
    with Dir show ?thesis by (simp add: list_all_iff)
  next
    case (Symlink t)
    with less show ?thesis by simp
  qed simp_all
qed





lemma Map_has_bucket_set:
  "Map_has (bucket_map b (bucket_set b' r k v)) k' \<longleftrightarrow> (b = b' \<and> k' = k) \<or> Map_has (bucket_map b r) k'"
  by (auto simp: bucket_map_bucket_set Map_has_Map_set)












subsection \<open>Setting a record in a map\<close>

lemma placed_bucket_set: "placed b k v r (bucket_set b r k v)"
  by (simp add: placed_def bucket_map_bucket_set Map_get_Map_set htmlJsFiles_bucket_set buckets_def)

lemma placed_get: "placed b k v r r' \<Longrightarrow> Map_get (bucket_map b r') k = Some v"
  by (simp add: placed_def)

lemma placed_other: "placed b k v r r' \<Longrightarrow> b' \<noteq> b \<Longrightarrow> bucket_map b' r' = bucket_map b' r"
  by (cases b') (auto simp: placed_def buckets_def)

subsection \<open>Below the root level\<close>

lemma nested_visit_keeps:
  assumes t: "truthy origSrc"
  shows "appIcons (visitFile W A results from' to name src origSrc prefix) = appIcons results \<and>
         launchImages (visitFile W A results from' to name src origSrc prefix) = launchImages results"
proof (cases "ignored (ignoreFiles W) name")
  case True
  then show ?thesis by (simp add: visitFile_ignored)
next
  case False
  from bucket_of_nested[OF t] show ?thesis
    by (simp add: visitFile_eq[OF False] bucket_set_other_icons bucket_set_other_images)
qed

lemma truthy_or_else: "truthy origSrc \<Longrightarrow> truthy (Some (or_else origSrc src))"
  by (cases origSrc) (simp_all add: or_else_def)

lemma nested_walk_keeps:
  assumes t: "truthy origSrc"
    and w: "walkDir W A results nd src dest ignore origSrc prefix = Inr results'"
  shows "appIcons results' = appIcons results \<and> launchImages results' = launchImages results"
proof -
  let ?I = "\<lambda>r::Result. appIcons r = appIcons results \<and> launchImages r = launchImages results"
  have "?I results'"
  proof (rule walk_invariant[where I = ?I and C = "\<lambda>s origSrc. truthy origSrc" and N = "\<lambda>n. True",
        OF _ _ names_in_True _ t w])
    fix r name src origSrc dest
    assume "?I r" "truthy origSrc"
    then show "?I (visitFile W A r (path_join src name) (path_join dest name) name src origSrc prefix)"
      using nested_visit_keeps[of origSrc W A r] by simp
  next
    fix src origSrc name
    assume "truthy origSrc"
    then show "truthy (Some (or_else origSrc src))" by (rule truthy_or_else)
  next
    show "?I results" by simp
  qed
  then show ?thesis .
qed

lemma visitFile_keys:
  "Map_has (bucket_map b (visitFile W A r from' to name src origSrc prefix)) k \<Longrightarrow>
     Map_has (bucket_map b r) k \<or> k = relPath_of from' src origSrc prefix"
proof (cases "ignored (ignoreFiles W) name")
  case True
  assume "Map_has (bucket_map b (visitFile W A r from' to name src origSrc prefix)) k"
  with True show ?thesis by (simp add: visitFile_ignored)
next
  case False
  assume "Map_has (bucket_map b (visitFile W A r from' to name src origSrc prefix)) k"
  then show ?thesis
    by (auto simp: visitFile_eq[OF False] Map_has_bucket_set bucket_map_htmlJsFiles_update)
qed

text \<open>
  In a walk started without \<open>origSrc\<close> at a source path that is not empty, a key of
  \<open>appIcons\<close> or \<open>launchImages\<close> that the listing of the root adds is the key of an
  entry of that listing which is no directory.
\<close>

lemma root_listing_keys:
  assumes s: "src \<noteq> []"
  shows "visitAll W A r l src dest ignore None prefix = Inr r' \<Longrightarrow>
     Map_has (appIcons r') k \<or> Map_has (launchImages r') k \<Longrightarrow>
     Map_has (appIcons r) k \<or> Map_has (launchImages r) k \<or>
     (\<exists>e\<in>set l. (\<exists>d. stat (snd e) = Inr d \<and> \<not> isDirectory d) \<and>
        k = relPath_of (path_join src (fst e)) src None prefix)"
proof (induction l arbitrary: r)
  case Nil
  then show ?case by (simp add: visitAll.simps)
next
  case (Cons e l)
  obtain n d where e: "e = (n, d)" by (cases e)
  from Cons.prems(1) e obtain r1 where
    v1: "visitListing W A r n d src dest ignore None prefix = Inr r1"
    and v2: "visitAll W A r1 l src dest ignore None prefix = Inr r'"
    by (auto elim: visitAll_Cons_Inr)
  from Cons.IH[OF v2 Cons.prems(2)] consider
    (old) "Map_has (appIcons r1) k \<or> Map_has (launchImages r1) k"
    | (later) "\<exists>e\<in>set l. (\<exists>d. stat (snd e) = Inr d \<and> \<not> isDirectory d) \<and>
        k = relPath_of (path_join src (fst e)) src None prefix"
    by blast
  then show ?case
  proof cases
    case later
    then show ?thesis by auto
  next
    case old
    show ?thesis
    proof (cases "ignored ignore n")
      case True
      with v1 have "r1 = r" by (simp add: visitListing_eq)
      with old show ?thesis by blast
    next
      case ni: False
      show ?thesis
      proof (cases "stat d")
        case (Inl x)
        with v1 ni show ?thesis by (simp add: visitListing_eq)
      next
        case (Inr d')
        show ?thesis
        proof (cases "isDirectory d'")
          case False
          with v1 ni Inr have r1: "r1 = visitFile W A r (path_join src n) (path_join dest n) n src None prefix"
            by (simp add: visitListing_eq)
          from old have "Map_has (bucket_map AppIcons r1) k \<or> Map_has (bucket_map LaunchImages r1) k"
            by simp
          with r1 visitFile_keys[of AppIcons W A r "path_join src n" "path_join dest n" n src None prefix k]
            visitFile_keys[of LaunchImages W A r "path_join src n" "path_join dest n" n src None prefix k]
          have "Map_has (appIcons r) k \<or> Map_has (launchImages r) k \<or>
              k = relPath_of (path_join src n) src None prefix" by auto
          with e Inr False show ?thesis by auto
        next
          case True
          show ?thesis
          proof (cases "ignored (ignoreDirs W) n")
            case True
            with v1 ni Inr \<open>isDirectory d'\<close> have "r1 = r" by (simp add: visitListing_eq)
            with old show ?thesis by blast
          next
            case False
            with v1 ni Inr True have
              "walkDir W A r d' (path_join src n) (path_join dest n) None (Some (or_else None src)) prefix = Inr r1"
              by (simp add: visitListing_eq)
            moreover have "truthy (Some (or_else None src))" using s by (simp add: or_else_def)
            ultimately have "appIcons r1 = appIcons r \<and> launchImages r1 = launchImages r"
              using nested_walk_keeps by blast
            with old have "Map_has (appIcons r) k \<or> Map_has (launchImages r) k" by simp
            then show ?thesis by blast
          qed
        qed
      qed
    qed
  qed
qed

subsection \<open>A walk and the events it meets\<close>










section \<open>The statements of the specification\<close>

subsection \<open>One bucket for each relative path\<close>




subsection \<open>The rules of the root level\<close>

text \<open>
  C2. The app icon and the launch image are looked for only in a visit whose \<open>origSrc\<close>
  is unset, and these are the visits of the entries of the requested root: a visit
  with \<open>origSrc\<close> set leaves \<open>appIcons\<close> and \<open>launchImages\<close> as they were, whatever the
  file, and so does the walk of a whole directory with \<open>origSrc\<close> set, which is how
  every subdirectory is walked, at any depth. In a walk started without \<open>origSrc\<close>
  every key of \<open>appIcons\<close> and of \<open>launchImages\<close> is therefore the key of an entry of
  the root's own listing that is no directory. \<open>Default.png\<close> visited with \<open>origSrc\<close>
  unset, its name not matching the icon pattern, is placed into \<open>launchImages\<close>; the
  same name visited with \<open>origSrc\<close> set, app thinning off, is placed into
  \<open>resourcesToCopy\<close>. The files of the root are visited with \<open>origSrc\<close> unset and every
  subdirectory of the root is walked with \<open>origSrc\<close> set to the root.
\<close>

theorem root_level_rules:
  "(truthy origSrc \<longrightarrow>
      appIcons (visitFile W A results from' to name src origSrc prefix) = appIcons results \<and>
      launchImages (visitFile W A results from' to name src origSrc prefix) = launchImages results)
   \<and> (truthy origSrc \<and> walkDir W A results nd src dest ignore origSrc prefix = Inr results' \<longrightarrow>
      appIcons results' = appIcons results \<and> launchImages results' = launchImages results)
   \<and> (src \<noteq> [] \<and> walk W A (Some (Dir l)) src dest ignore None prefix = Inr results' \<and>
        (Map_has (appIcons results') k \<or> Map_has (launchImages results') k) \<longrightarrow>
      (\<exists>e\<in>set l. (\<exists>d. stat (snd e) = Inr d \<and> \<not> isDirectory d) \<and>
         k = relPath_of (path_join src (fst e)) src None prefix))
   \<and> (\<not> ignored (ignoreFiles W) ''Default.png'' \<and> \<not> truthy origSrc \<and> icon_match W ''Default.png'' = None \<longrightarrow>
      placed LaunchImages (relPath_of from' src origSrc prefix) (info_of ''Default.png'' from' to) results
        (visitFile W A results from' to ''Default.png'' src origSrc prefix))
   \<and> (\<not> ignored (ignoreFiles W) ''Default.png'' \<and> truthy origSrc \<and> \<not> useAppThinning W \<longrightarrow>
      placed ResourcesToCopy (relPath_of from' src origSrc prefix) (info_of ''Default.png'' from' to) results
        (visitFile W A results from' to ''Default.png'' src origSrc prefix))
   \<and> (\<not> ignored ignore name \<longrightarrow>
      visitListing W A results name File src dest ignore None prefix =
        Inr (visitFile W A results (path_join src name) (path_join dest name) name src None prefix))
   \<and> (\<not> ignored ignore name \<and> \<not> ignored (ignoreDirs W) name \<and> src \<noteq> [] \<longrightarrow>
      visitListing W A results name (Dir l) src dest ignore None prefix =
        walkDir W A results (Dir l) (path_join src name) (path_join dest name) None (Some src) prefix \<and>
      truthy (Some src))"
proof (intro conjI impI)
  assume t: "truthy origSrc"
  from nested_visit_keeps[OF t]
  show "appIcons (visitFile W A results from' to name src origSrc prefix) = appIcons results"
    and "launchImages (visitFile W A results from' to name src origSrc prefix) = launchImages results"
    by blast+
next
  assume a: "truthy origSrc \<and> walkDir W A results nd src dest ignore origSrc prefix = Inr results'"
  then have "appIcons results' = appIcons results \<and> launchImages results' = launchImages results"
    using nested_walk_keeps by blast
  then show "appIcons results' = appIcons results" and "launchImages results' = launchImages results"
    by blast+
next
  assume a: "src \<noteq> [] \<and> walk W A (Some (Dir l)) src dest ignore None prefix = Inr results' \<and>
        (Map_has (appIcons results') k \<or> Map_has (launchImages results') k)"
  then have v: "visitAll W A Result_new l src dest ignore None prefix = Inr results'"
    by (simp add: walk_def walkDir.simps)
  from a have s: "src \<noteq> []" and m: "Map_has (appIcons results') k \<or> Map_has (launchImages results') k"
    by blast+
  from root_listing_keys[OF s v m]
  show "\<exists>e\<in>set l. (\<exists>d. stat (snd e) = Inr d \<and> \<not> isDirectory d) \<and>
         k = relPath_of (path_join src (fst e)) src None prefix"
    by (simp add: Result_new_def Map_has_def)
next
  assume a: "\<not> ignored (ignoreFiles W) ''Default.png'' \<and> \<not> truthy origSrc \<and> icon_match W ''Default.png'' = None"
  then have n: "\<not> ignored (ignoreFiles W) ''Default.png''" by blast
  have h: "''png'' \<noteq> ''html''" by simp
  note V = visitFile_plain[OF n Default_png_name h, of A results from' to src origSrc prefix]
  have b1: "bucket_of W ''Default.png'' (relPath_of from' src origSrc prefix) origSrc = LaunchImages"
    using a by (simp add: bucket_of_def Default_png_name Default_png_image Default_png_logo)
  have b2: "record_of W ''Default.png'' from' to origSrc = info_of ''Default.png'' from' to"
    using a by (simp add: record_of_def Default_png_name Default_png_image Default_png_logo)
  show "placed LaunchImages (relPath_of from' src origSrc prefix) (info_of ''Default.png'' from' to) results
        (visitFile W A results from' to ''Default.png'' src origSrc prefix)"
    by (simp only: V b1 b2 placed_bucket_set)
next
  assume a: "\<not> ignored (ignoreFiles W) ''Default.png'' \<and> truthy origSrc \<and> \<not> useAppThinning W"
  then have n: "\<not> ignored (ignoreFiles W) ''Default.png''" by blast
  have h: "''png'' \<noteq> ''html''" by simp
  note V = visitFile_plain[OF n Default_png_name h, of A results from' to src origSrc prefix]
  have b1: "bucket_of W ''Default.png'' (relPath_of from' src origSrc prefix) origSrc = ResourcesToCopy"
    using a by (simp add: bucket_of_def Default_png_name Default_png_image Default_png_logo)
  have b2: "record_of W ''Default.png'' from' to origSrc = info_of ''Default.png'' from' to"
    using a by (simp add: record_of_def Default_png_name Default_png_image Default_png_logo)
  show "placed ResourcesToCopy (relPath_of from' src origSrc prefix) (info_of ''Default.png'' from' to) results
        (visitFile W A results from' to ''Default.png'' src origSrc prefix)"
    by (simp only: V b1 b2 placed_bucket_set)
next
  assume "\<not> ignored ignore name"
  then show "visitListing W A results name File src dest ignore None prefix =
        Inr (visitFile W A results (path_join src name) (path_join dest name) name src None prefix)"
    by (simp add: visitListing.simps Let_def)
next
  assume a: "\<not> ignored ignore name \<and> \<not> ignored (ignoreDirs W) name \<and> src \<noteq> []"
  then show "visitListing W A results name (Dir l) src dest ignore None prefix =
        walkDir W A results (Dir l) (path_join src name) (path_join dest name) None (Some src) prefix"
    by (simp add: visitListing.simps Let_def or_else_def)
  from a show "truthy (Some src)" by simp
qed

theorem root_level_rules_witness:
  "Map_get (launchImages
      (visitFile \<lparr>useAppThinning = False, ignoreDirs = None, ignoreFiles = None, appIconRegExp = None\<rparr>
         (\<lambda>f d. []) Result_new ''/r/Default.png'' ''/o/Default.png'' ''Default.png'' ''/r'' None None))
      ''Default.png'' =
     Some \<lparr>info_name = ''Default'', info_ext = Some ''png'', info_src = ''/r/Default.png'',
       info_dest = ''/o/Default.png'', info_tag = None, info_scale = None, info_device = None\<rparr> \<and>
   Map_get (resourcesToCopy
      (visitFile \<lparr>useAppThinning = False, ignoreDirs = None, ignoreFiles = None, appIconRegExp = None\<rparr>
         (\<lambda>f d. []) Result_new ''/r/sub/Default.png'' ''/o/sub/Default.png'' ''Default.png'' ''/r/sub''
         (Some ''/r'') None))
      ''sub/Default.png'' =
     Some \<lparr>info_name = ''Default'', info_ext = Some ''png'', info_src = ''/r/sub/Default.png'',
       info_dest = ''/o/sub/Default.png'', info_tag = None, info_scale = None, info_device = None\<rparr> \<and>
   launchImages
      (visitFile \<lparr>useAppThinning = False, ignoreDirs = None, ignoreFiles = None, appIconRegExp = None\<rparr>
         (\<lambda>f d. []) Result_new ''/r/sub/Default.png'' ''/o/sub/Default.png'' ''Default.png'' ''/r/sub''
         (Some ''/r'') None) = [] \<and>
   (case walkDir \<lparr>useAppThinning = False, ignoreDirs = None, ignoreFiles = None, appIconRegExp = None\<rparr>
           (\<lambda>f d. []) Result_new (Dir [(''Default.png'', File), (''deep'', Dir [(''Default.png'', File)])])
           ''/r/sub'' ''/o/sub'' None (Some ''/r'') None of
      Inl e \<Rightarrow> False
    | Inr r \<Rightarrow> appIcons r = [] \<and> launchImages r = [] \<and>
        Map_has (resourcesToCopy r) ''sub/Default.png'' \<and>
        Map_has (resourcesToCopy r) ''sub/deep/Default.png'') \<and>
   walk \<lparr>useAppThinning = False, ignoreDirs = None, ignoreFiles = None, appIconRegExp = None\<rparr>
     (\<lambda>f d. [])
     (Some (Dir [(''Default.png'', File),
                 (''sub'', Dir [(''Default.png'', File), (''deep'', Dir [(''Default.png'', File)])])]))
     ''/r'' ''/o'' None None None =
   Inr (Result_new
     \<lparr>launchImages := [(''Default.png'',
        \<lparr>info_name = ''Default'', info_ext = Some ''png'', info_src = ''/r/Default.png'',
         info_dest = ''/o/Default.png'', info_tag = None, info_scale = None, info_device = None\<rparr>)],
      resourcesToCopy := [(''sub/Default.png'',
        \<lparr>info_name = ''Default'', info_ext = Some ''png'', info_src = ''/r/sub/Default.png'',
         info_dest = ''/o/sub/Default.png'', info_tag = None, info_scale = None, info_device = None\<rparr>),
        (''sub/deep/Default.png'',
        \<lparr>info_name = ''Default'', info_ext = Some ''png'', info_src = ''/r/sub/deep/Default.png'',
         info_dest = ''/o/sub/deep/Default.png'', info_tag = None, info_scale = None,
         info_device = None\<rparr>)]\<rparr>)"
proof -
  let ?W = "\<lparr>useAppThinning = False, ignoreDirs = None, ignoreFiles = None, appIconRegExp = None\<rparr>"
  let ?A = "(\<lambda>f d. []) :: analyzer"
  let ?v2 = "visitFile ?W ?A Result_new ''/r/sub/Default.png'' ''/o/sub/Default.png'' ''Default.png'' ''/r/sub''
         (Some ''/r'') None"
  note T1 = root_level_rules[where W = ?W and A = ?A and results = Result_new
      and from' = "''/r/Default.png''" and to = "''/o/Default.png''" and src = "''/r''"
      and origSrc = None and prefix = None,
      THEN conjunct2, THEN conjunct2, THEN conjunct2, THEN conjunct1, rule_format]
  note T2 = root_level_rules[where W = ?W and A = ?A and results = Result_new
      and from' = "''/r/sub/Default.png''" and to = "''/o/sub/Default.png''" and src = "''/r/sub''"
      and origSrc = "Some ''/r''" and prefix = None,
      THEN conjunct2, THEN conjunct2, THEN conjunct2, THEN conjunct2, THEN conjunct1, rule_format]
  have h1: "\<not> ignored (ignoreFiles ?W) ''Default.png'' \<and> \<not> truthy None \<and> icon_match ?W ''Default.png'' = None"
    by (simp add: ignored_def icon_match_def)
  have h2: "\<not> ignored (ignoreFiles ?W) ''Default.png'' \<and> truthy (Some ''/r'') \<and> \<not> useAppThinning ?W"
    by (simp add: ignored_def)
  have e1: "relPath_of ''/r/Default.png'' ''/r'' None None = ''Default.png''" by code_simp
  have e2: "relPath_of ''/r/sub/Default.png'' ''/r/sub'' (Some ''/r'') None = ''sub/Default.png''" by code_simp
  have e3: "info_of ''Default.png'' ''/r/Default.png'' ''/o/Default.png'' =
     \<lparr>info_name = ''Default'', info_ext = Some ''png'', info_src = ''/r/Default.png'',
      info_dest = ''/o/Default.png'', info_tag = None, info_scale = None, info_device = None\<rparr>" by code_simp
  have e4: "info_of ''Default.png'' ''/r/sub/Default.png'' ''/o/sub/Default.png'' =
     \<lparr>info_name = ''Default'', info_ext = Some ''png'', info_src = ''/r/sub/Default.png'',
      info_dest = ''/o/sub/Default.png'', info_tag = None, info_scale = None, info_device = None\<rparr>" by code_simp
  note p1 = T1[OF h1, unfolded e1 e3]
  note p2 = T2[OF h2, unfolded e2 e4]
  from placed_get[OF p1] have c1: "Map_get (launchImages
      (visitFile ?W ?A Result_new ''/r/Default.png'' ''/o/Default.png'' ''Default.png'' ''/r'' None None))
      ''Default.png'' =
     Some \<lparr>info_name = ''Default'', info_ext = Some ''png'', info_src = ''/r/Default.png'',
       info_dest = ''/o/Default.png'', info_tag = None, info_scale = None, info_device = None\<rparr>"
    by simp
  from placed_get[OF p2] have c2: "Map_get (resourcesToCopy ?v2) ''sub/Default.png'' =
     Some \<lparr>info_name = ''Default'', info_ext = Some ''png'', info_src = ''/r/sub/Default.png'',
       info_dest = ''/o/sub/Default.png'', info_tag = None, info_scale = None, info_device = None\<rparr>"
    by simp
  from placed_other[OF p2, of LaunchImages] have c3: "launchImages ?v2 = []"
    by (simp add: Result_new_def)
  have c4: "walk ?W ?A
     (Some (Dir [(''Default.png'', File),
                 (''sub'', Dir [(''Default.png'', File), (''deep'', Dir [(''Default.png'', File)])])]))
     ''/r'' ''/o'' None None None =
   Inr (Result_new
     \<lparr>launchImages := [(''Default.png'',
        \<lparr>info_name = ''Default'', info_ext = Some ''png'', info_src = ''/r/Default.png'',
         info_dest = ''/o/Default.png'', info_tag = None, info_scale = None, info_device = None\<rparr>)],
      resourcesToCopy := [(''sub/Default.png'',
        \<lparr>info_name = ''Default'', info_ext = Some ''png'', info_src = ''/r/sub/Default.png'',
         info_dest = ''/o/sub/Default.png'', info_tag = None, info_scale = None, info_device = None\<rparr>),
        (''sub/deep/Default.png'',
        \<lparr>info_name = ''Default'', info_ext = Some ''png'', info_src = ''/r/sub/deep/Default.png'',
         info_dest = ''/o/sub/deep/Default.png'', info_tag = None, info_scale = None,
         info_device = None\<rparr>)]\<rparr>)"
    by code_simp
  let ?R = "Result_new
     \<lparr>resourcesToCopy := [(''sub/Default.png'',
        \<lparr>info_name = ''Default'', info_ext = Some ''png'', info_src = ''/r/sub/Default.png'',
         info_dest = ''/o/sub/Default.png'', info_tag = None, info_scale = None, info_device = None\<rparr>),
        (''sub/deep/Default.png'',
        \<lparr>info_name = ''Default'', info_ext = Some ''png'', info_src = ''/r/sub/deep/Default.png'',
         info_dest = ''/o/sub/deep/Default.png'', info_tag = None, info_scale = None,
         info_device = None\<rparr>)]\<rparr>"
  have w: "walkDir ?W ?A Result_new (Dir [(''Default.png'', File), (''deep'', Dir [(''Default.png'', File)])])
           ''/r/sub'' ''/o/sub'' None (Some ''/r'') None = Inr ?R"
    by code_simp
  have tw: "truthy (Some ''/r'') \<and>
      walkDir ?W ?A Result_new (Dir [(''Default.png'', File), (''deep'', Dir [(''Default.png'', File)])])
           ''/r/sub'' ''/o/sub'' None (Some ''/r'') None = Inr ?R"
    using w by simp
  from root_level_rules[THEN conjunct2, THEN conjunct1, THEN mp, OF tw]
  have k: "appIcons ?R = [] \<and> launchImages ?R = []" by (simp add: Result_new_def)
  have m: "Map_has (resourcesToCopy ?R) ''sub/Default.png'' \<and>
      Map_has (resourcesToCopy ?R) ''sub/deep/Default.png''"
    by (simp add: Map_has_def)
  from k m have c5: "(case walkDir ?W ?A Result_new
           (Dir [(''Default.png'', File), (''deep'', Dir [(''Default.png'', File)])])
           ''/r/sub'' ''/o/sub'' None (Some ''/r'') None of
      Inl e \<Rightarrow> False
    | Inr r \<Rightarrow> appIcons r = [] \<and> launchImages r = [] \<and>
        Map_has (resourcesToCopy r) ''sub/Default.png'' \<and>
        Map_has (resourcesToCopy r) ''sub/deep/Default.png'')"
    by (simp only: w sum.case simp_thms)
  from c1 c2 c3 c5 c4 show ?thesis by (intro conjI)
qed

subsection \<open>The reclassification of the scripts that markup refers to\<close>

text \<open>
  C3. \<open>dontProcessJsFilesReferencedFromHTML\<close> moves exactly the paths of \<open>htmlJsFiles\<close>
  that are keys of \<open>jsFiles\<close>: such a path is no longer a key of \<open>jsFiles\<close> and is a key of
  \<open>resourcesToCopy\<close> with the record \<open>jsFiles\<close> held; for every other path \<open>jsFiles\<close>
  and \<open>resourcesToCopy\<close> hold what they held; the five other maps and the set are
  unchanged; and when no path of the set is a key of \<open>jsFiles\<close> the Result is unchanged.
  The visit of an \<open>html\<close> file puts the file itself into \<open>resourcesToCopy\<close> and the
  scripts the analyzer reports into the set, and the file is still in
  \<open>resourcesToCopy\<close> after the reclassification.
\<close>

theorem reclassification_moves_scripts:
  "(\<forall>p. p \<in> set (htmlJsFiles r) \<and> Map_has (jsFiles r) p \<longrightarrow>
      \<not> Map_has (jsFiles (dontProcessJsFilesReferencedFromHTML r)) p \<and>
      Map_get (resourcesToCopy (dontProcessJsFilesReferencedFromHTML r)) p = Map_get (jsFiles r) p)
   \<and> (\<forall>p. \<not> (p \<in> set (htmlJsFiles r) \<and> Map_has (jsFiles r) p) \<longrightarrow>
      Map_get (jsFiles (dontProcessJsFilesReferencedFromHTML r)) p = Map_get (jsFiles r) p \<and>
      Map_get (resourcesToCopy (dontProcessJsFilesReferencedFromHTML r)) p = Map_get (resourcesToCopy r) p)
   \<and> appIcons (dontProcessJsFilesReferencedFromHTML r) = appIcons r
   \<and> cssFiles (dontProcessJsFilesReferencedFromHTML r) = cssFiles r
   \<and> launchImages (dontProcessJsFilesReferencedFromHTML r) = launchImages r
   \<and> launchLogos (dontProcessJsFilesReferencedFromHTML r) = launchLogos r
   \<and> imageAssets (dontProcessJsFilesReferencedFromHTML r) = imageAssets r
   \<and> htmlJsFiles (dontProcessJsFilesReferencedFromHTML r) = htmlJsFiles r
   \<and> ((\<forall>p\<in>set (htmlJsFiles r). \<not> Map_has (jsFiles r) p) \<longrightarrow> dontProcessJsFilesReferencedFromHTML r = r)
   \<and> (\<not> ignored (ignoreFiles W) name \<and> info_ext (info_of name from' to) = Some ''html'' \<longrightarrow>
      Map_get (resourcesToCopy (visitFile W A results from' to name src origSrc prefix))
        (relPath_of from' src origSrc prefix) = Some (info_of name from' to) \<and>
      set (A from' (join_slash (butlast (split_slash (relPath_of from' src origSrc prefix)))))
        \<subseteq> set (htmlJsFiles (visitFile W A results from' to name src origSrc prefix)) \<and>
      Map_has (resourcesToCopy (dontProcessJsFilesReferencedFromHTML
          (visitFile W A results from' to name src origSrc prefix)))
        (relPath_of from' src origSrc prefix))"
proof -
  let ?R = "dontProcessJsFilesReferencedFromHTML r"
  have R: "?R = foldl dontProcess_step r (htmlJsFiles r)"
    by (simp add: dontProcessJsFilesReferencedFromHTML_def)
  have a: "\<forall>p. p \<in> set (htmlJsFiles r) \<and> Map_has (jsFiles r) p \<longrightarrow>
      \<not> Map_has (jsFiles ?R) p \<and> Map_get (resourcesToCopy ?R) p = Map_get (jsFiles r) p"
    by (simp add: R Map_has_iff Map_get_def dontProcess_loop_js dontProcess_loop_rtc)
  have b: "\<forall>p. \<not> (p \<in> set (htmlJsFiles r) \<and> Map_has (jsFiles r) p) \<longrightarrow>
      Map_get (jsFiles ?R) p = Map_get (jsFiles r) p \<and>
      Map_get (resourcesToCopy ?R) p = Map_get (resourcesToCopy r) p"
    by (auto simp: R Map_has_iff Map_get_def dontProcess_loop_js dontProcess_loop_rtc)
  note f = dontProcess_loop_fields[of r "htmlJsFiles r", folded R]
  have c: "(\<forall>p\<in>set (htmlJsFiles r). \<not> Map_has (jsFiles r) p) \<longrightarrow> ?R = r"
    by (simp add: R dontProcess_loop_same)
  have d: "\<not> ignored (ignoreFiles W) name \<and> info_ext (info_of name from' to) = Some ''html'' \<longrightarrow>
      Map_get (resourcesToCopy (visitFile W A results from' to name src origSrc prefix))
        (relPath_of from' src origSrc prefix) = Some (info_of name from' to) \<and>
      set (A from' (join_slash (butlast (split_slash (relPath_of from' src origSrc prefix)))))
        \<subseteq> set (htmlJsFiles (visitFile W A results from' to name src origSrc prefix)) \<and>
      Map_has (resourcesToCopy (dontProcessJsFilesReferencedFromHTML
          (visitFile W A results from' to name src origSrc prefix)))
        (relPath_of from' src origSrc prefix)"
  proof
    assume h: "\<not> ignored (ignoreFiles W) name \<and> info_ext (info_of name from' to) = Some ''html''"
    let ?v = "visitFile W A results from' to name src origSrc prefix"
    let ?k = "relPath_of from' src origSrc prefix"
    from h have V: "?v = bucket_set ResourcesToCopy
      (results\<lparr>htmlJsFiles := foldl Set_add (htmlJsFiles results)
         (A from' (join_slash (butlast (split_slash ?k))))\<rparr>) ?k (info_of name from' to)"
      by (simp add: visitFile_html)
    have g: "Map_get (resourcesToCopy ?v) ?k = Some (info_of name from' to)"
      by (simp add: V Map_get_Map_set)
    have s: "set (A from' (join_slash (butlast (split_slash ?k)))) \<subseteq> set (htmlJsFiles ?v)"
      by (simp add: V set_foldl_Set_add)
    from g have "map_of (resourcesToCopy ?v) ?k \<noteq> None" by (simp add: Map_get_def)
    then have "Map_has (resourcesToCopy (dontProcessJsFilesReferencedFromHTML ?v)) ?k"
      by (simp add: dontProcessJsFilesReferencedFromHTML_def Map_has_iff dontProcess_loop_rtc)
    with g s show "Map_get (resourcesToCopy ?v) ?k = Some (info_of name from' to) \<and>
      set (A from' (join_slash (butlast (split_slash ?k)))) \<subseteq> set (htmlJsFiles ?v) \<and>
      Map_has (resourcesToCopy (dontProcessJsFilesReferencedFromHTML ?v)) ?k" by blast
  qed
  from a b f c d show ?thesis by blast
qed

theorem reclassification_moves_scripts_witness:
  "(case walk \<lparr>useAppThinning = False, ignoreDirs = None, ignoreFiles = None, appIconRegExp = None\<rparr>
          (\<lambda>f d. [''foo.js'']) (Some (Dir [(''index.html'', File), (''foo.js'', File)]))
          ''/r'' ''/o'' None None None of
      Inl e \<Rightarrow> False
    | Inr r \<Rightarrow>
        Map_get (jsFiles r) ''foo.js'' =
          Some \<lparr>info_name = ''foo'', info_ext = Some ''js'', info_src = ''/r/foo.js'',
                info_dest = ''/o/foo.js'', info_tag = None, info_scale = None, info_device = None\<rparr> \<and>
        \<not> Map_has (jsFiles (dontProcessJsFilesReferencedFromHTML r)) ''foo.js'' \<and>
        Map_get (resourcesToCopy (dontProcessJsFilesReferencedFromHTML r)) ''foo.js'' =
          Some \<lparr>info_name = ''foo'', info_ext = Some ''js'', info_src = ''/r/foo.js'',
                info_dest = ''/o/foo.js'', info_tag = None, info_scale = None, info_device = None\<rparr> \<and>
        Map_has (resourcesToCopy (dontProcessJsFilesReferencedFromHTML r)) ''index.html'')"
proof -
  let ?foo = "\<lparr>info_name = ''foo'', info_ext = Some ''js'', info_src = ''/r/foo.js'',
                info_dest = ''/o/foo.js'', info_tag = None, info_scale = None, info_device = None\<rparr>"
  let ?idx = "\<lparr>info_name = ''index'', info_ext = Some ''html'', info_src = ''/r/index.html'',
                info_dest = ''/o/index.html'', info_tag = None, info_scale = None, info_device = None\<rparr>"
  let ?r = "Result_new\<lparr>jsFiles := [(''foo.js'', ?foo)], resourcesToCopy := [(''index.html'', ?idx)],
      htmlJsFiles := [''foo.js'']\<rparr>"
  have w: "walk \<lparr>useAppThinning = False, ignoreDirs = None, ignoreFiles = None, appIconRegExp = None\<rparr>
          (\<lambda>f d. [''foo.js'']) (Some (Dir [(''index.html'', File), (''foo.js'', File)]))
          ''/r'' ''/o'' None None None = Inr ?r"
    by code_simp
  have g: "Map_get (jsFiles ?r) ''foo.js'' = Some ?foo" by (simp add: Map_get_def)
  have h1: "''foo.js'' \<in> set (htmlJsFiles ?r) \<and> Map_has (jsFiles ?r) ''foo.js''"
    by (simp add: Map_has_def)
  have h2: "\<not> (''index.html'' \<in> set (htmlJsFiles ?r) \<and> Map_has (jsFiles ?r) ''index.html'')"
    by simp
  note T = reclassification_moves_scripts[where r = ?r]
  note t1 = T[THEN conjunct1, rule_format, OF h1]
  have c1: "\<not> Map_has (jsFiles (dontProcessJsFilesReferencedFromHTML ?r)) ''foo.js'' \<and>
      Map_get (resourcesToCopy (dontProcessJsFilesReferencedFromHTML ?r)) ''foo.js'' = Some ?foo"
    using t1 by (simp only: g simp_thms)
  from T[THEN conjunct2, THEN conjunct1, rule_format, OF h2]
  have "Map_get (resourcesToCopy (dontProcessJsFilesReferencedFromHTML ?r)) ''index.html'' =
      Map_get (resourcesToCopy ?r) ''index.html''" by blast
  then have c2: "Map_has (resourcesToCopy (dontProcessJsFilesReferencedFromHTML ?r)) ''index.html''"
    by (simp add: Map_has_iff Map_get_def)
  from g c1 c2 show ?thesis by (simp only: w sum.case) blast
qed

subsection \<open>The merge of Results\<close>

text \<open>
  C4. For Results whose maps hold each key once, every map of \<open>merge(results)\<close> is
  the union of the maps of the results, a later result overwriting an earlier one
  on a common key, and its set is the union of their sets. For two Results \<open>a\<close> and \<open>b\<close>
  with no common key in any map, \<open>merge([a, b])\<close> and \<open>merge([b, a])\<close> hold the same record
  under every key of every map and the same set (the order in which a \<open>Map\<close> lists its
  entries is no part of this equality); and where \<open>b\<close> has a key, \<open>merge([a, b])\<close> holds
  the record of \<open>b\<close>.
\<close>

theorem merge_later_wins:
  assumes rs: "\<forall>r\<in>set rs. Result_ok r" and a: "Result_ok a" and b: "Result_ok b"
  shows "(\<forall>bk. map_of (bucket_map bk (merge rs)) =
            foldl (++) Map.empty (map (\<lambda>r. map_of (bucket_map bk r)) rs))
    \<and> set (htmlJsFiles (merge rs)) = (\<Union>r\<in>set rs. set (htmlJsFiles r))
    \<and> Result_ok (merge rs)
    \<and> ((\<forall>bk. fst ` set (bucket_map bk a) \<inter> fst ` set (bucket_map bk b) = {}) \<longrightarrow>
         (\<forall>bk k. Map_get (bucket_map bk (merge [a, b])) k = Map_get (bucket_map bk (merge [b, a])) k) \<and>
         set (htmlJsFiles (merge [a, b])) = set (htmlJsFiles (merge [b, a])))
    \<and> (\<forall>bk k v. Map_get (bucket_map bk b) k = Some v \<longrightarrow>
         Map_get (bucket_map bk (merge [a, b])) k = Some v)
    \<and> (\<forall>bk k. \<not> Map_has (bucket_map bk b) k \<longrightarrow>
         Map_get (bucket_map bk (merge [a, b])) k = Map_get (bucket_map bk a) k)"
proof (intro conjI allI impI)
  fix bk
  show "map_of (bucket_map bk (merge rs)) =
            foldl (++) Map.empty (map (\<lambda>r. map_of (bucket_map bk r)) rs)"
    by (rule map_of_bucket_merge[OF rs])
next
  show "set (htmlJsFiles (merge rs)) = (\<Union>r\<in>set rs. set (htmlJsFiles r))"
    by (simp add: merge_def set_merge_sets)
next
  show "Result_ok (merge rs)" by (rule Result_ok_merge)
next
  fix bk k
  assume d: "\<forall>bk. fst ` set (bucket_map bk a) \<inter> fst ` set (bucket_map bk b) = {}"
  then have "dom (map_of (bucket_map bk a)) \<inter> dom (map_of (bucket_map bk b)) = {}"
    by (simp add: dom_map_of_conv_image_fst)
  then have "map_of (bucket_map bk a) ++ map_of (bucket_map bk b) =
      map_of (bucket_map bk b) ++ map_of (bucket_map bk a)"
    by (rule map_add_comm)
  then show "Map_get (bucket_map bk (merge [a, b])) k = Map_get (bucket_map bk (merge [b, a])) k"
    by (simp add: Map_get_def map_of_bucket_merge2[OF a b] map_of_bucket_merge2[OF b a])
next
  show "set (htmlJsFiles (merge [a, b])) = set (htmlJsFiles (merge [b, a]))"
    by (auto simp: merge_def set_merge_sets)
next
  fix bk k v
  assume "Map_get (bucket_map bk b) k = Some v"
  then show "Map_get (bucket_map bk (merge [a, b])) k = Some v"
    by (simp add: Map_get_def map_of_bucket_merge2[OF a b])
next
  fix bk k
  assume "\<not> Map_has (bucket_map bk b) k"
  then show "Map_get (bucket_map bk (merge [a, b])) k = Map_get (bucket_map bk a) k"
    by (simp add: Map_get_def Map_has_iff map_of_bucket_merge2[OF a b] map_add_def)
qed

theorem merge_later_wins_witness:
  "Map_get (jsFiles (merge [Result_new\<lparr>jsFiles := [(''x.js'', info_of ''x.js'' ''/a/x.js'' ''/o/x.js'')]\<rparr>,
                            Result_new\<lparr>jsFiles := [(''x.js'', info_of ''x.js'' ''/b/x.js'' ''/o/x.js'')]\<rparr>]))
     ''x.js'' = Some (info_of ''x.js'' ''/b/x.js'' ''/o/x.js'') \<and>
   Map_get (jsFiles (merge [Result_new\<lparr>jsFiles := [(''x.js'', info_of ''x.js'' ''/b/x.js'' ''/o/x.js'')]\<rparr>,
                            Result_new\<lparr>jsFiles := [(''x.js'', info_of ''x.js'' ''/a/x.js'' ''/o/x.js'')]\<rparr>]))
     ''x.js'' = Some (info_of ''x.js'' ''/a/x.js'' ''/o/x.js'') \<and>
   Map_get (jsFiles (merge [Result_new\<lparr>jsFiles := [(''x.js'', info_of ''x.js'' ''/a/x.js'' ''/o/x.js'')]\<rparr>,
                            Result_new\<lparr>jsFiles := [(''y.js'', info_of ''y.js'' ''/b/y.js'' ''/o/y.js'')]\<rparr>]))
     ''y.js'' =
   Map_get (jsFiles (merge [Result_new\<lparr>jsFiles := [(''y.js'', info_of ''y.js'' ''/b/y.js'' ''/o/y.js'')]\<rparr>,
                            Result_new\<lparr>jsFiles := [(''x.js'', info_of ''x.js'' ''/a/x.js'' ''/o/x.js'')]\<rparr>]))
     ''y.js''"
proof -
  let ?a = "Result_new\<lparr>jsFiles := [(''x.js'', info_of ''x.js'' ''/a/x.js'' ''/o/x.js'')]\<rparr>"
  let ?b = "Result_new\<lparr>jsFiles := [(''x.js'', info_of ''x.js'' ''/b/x.js'' ''/o/x.js'')]\<rparr>"
  let ?c = "Result_new\<lparr>jsFiles := [(''y.js'', info_of ''y.js'' ''/b/y.js'' ''/o/y.js'')]\<rparr>"
  have oa: "Result_ok ?a" and ob: "Result_ok ?b" and oc: "Result_ok ?c"
    by (simp_all add: Result_ok_def Result_new_def)
  have o2: "\<forall>r\<in>set []. Result_ok r" by simp
  have ga: "Map_get (bucket_map JsFiles ?a) ''x.js'' = Some (info_of ''x.js'' ''/a/x.js'' ''/o/x.js'')"
    by (simp add: Map_get_def)
  have gb: "Map_get (bucket_map JsFiles ?b) ''x.js'' = Some (info_of ''x.js'' ''/b/x.js'' ''/o/x.js'')"
    by (simp add: Map_get_def)
  have dj: "\<forall>bk. fst ` set (bucket_map bk ?a) \<inter> fst ` set (bucket_map bk ?c) = {}"
  proof
    fix bk show "fst ` set (bucket_map bk ?a) \<inter> fst ` set (bucket_map bk ?c) = {}"
      by (cases bk) (simp_all add: Result_new_def)
  qed
  note T1 = merge_later_wins[OF o2 oa ob, THEN conjunct2, THEN conjunct2, THEN conjunct2, THEN conjunct2,
      THEN conjunct1, rule_format, OF gb]
  note T2 = merge_later_wins[OF o2 ob oa, THEN conjunct2, THEN conjunct2, THEN conjunct2, THEN conjunct2,
      THEN conjunct1, rule_format, OF ga]
  note T3 = merge_later_wins[OF o2 oa oc, THEN conjunct2, THEN conjunct2, THEN conjunct2, THEN conjunct1,
      THEN mp, OF dj, THEN conjunct1, rule_format, of JsFiles "''y.js''"]
  from T1 T2 T3 show ?thesis by (simp only: bucket_map.simps)
qed

subsection \<open>A missing root, and failures of the file system\<close>



subsection \<open>The pattern of the app icon\<close>




subsection \<open>Image assets and bundles\<close>

text \<open>
  C7, as the code has it. A \<open>jpg\<close> file, or a \<open>png\<close> file that the root-level rules did
  not take, whose name does not match the launch-logo pattern, is placed into
  \<open>imageAssets\<close> when app thinning is on and the bundle pattern does not match its
  relative path, and into \<open>resourcesToCopy\<close> otherwise: that map then holds the record
  of the file at its relative path, and no other map has changed. The bundle pattern
  matches a path exactly when the path holds \<open>.bundle/\<close> with at least one character
  right before it and one right after it, neither of them a line terminator.
\<close>

theorem image_asset_rule:
  assumes n: "\<not> ignored (ignoreFiles W) name"
    and x: "info_ext (info_of name from' to) = Some e"
    and r: "e = ''jpg'' \<or> e = ''png'' \<and> (truthy origSrc \<or> icon_match W name = None \<and> \<not> LAUNCH_IMAGE_REGEXP name)"
    and l: "LAUNCH_LOGO_REGEXP name = None"
  shows "(useAppThinning W \<and> \<not> BUNDLE_FILE_REGEXP (relPath_of from' src origSrc prefix) \<longrightarrow>
        placed ImageAssets (relPath_of from' src origSrc prefix) (info_of name from' to) results
          (visitFile W A results from' to name src origSrc prefix))
    \<and> (\<not> useAppThinning W \<or> BUNDLE_FILE_REGEXP (relPath_of from' src origSrc prefix) \<longrightarrow>
        placed ResourcesToCopy (relPath_of from' src origSrc prefix) (info_of name from' to) results
          (visitFile W A results from' to name src origSrc prefix))
    \<and> (BUNDLE_FILE_REGEXP p \<longleftrightarrow> (\<exists>x c d y. p = x @ c # ''.bundle/'' @ d # y \<and> dot c \<and> dot d))"
proof (intro conjI impI)
  from x obtain b where f: "FILENAME_REGEXP name = Some (b, e)" by (auto simp: info_ext_info_of)
  from r have h: "e \<noteq> ''html''" by auto
  note V = visitFile_plain[OF n f h, of A results from' to src origSrc prefix]
  have b1: "bucket_of W name (relPath_of from' src origSrc prefix) origSrc =
      (if useAppThinning W \<and> \<not> BUNDLE_FILE_REGEXP (relPath_of from' src origSrc prefix)
         then ImageAssets else ResourcesToCopy)"
    using f r l by (auto simp: bucket_of_def)
  have b2: "record_of W name from' to origSrc = info_of name from' to"
    using f r l by (auto simp: record_of_def)
  {
    assume t: "useAppThinning W \<and> \<not> BUNDLE_FILE_REGEXP (relPath_of from' src origSrc prefix)"
    then have "visitFile W A results from' to name src origSrc prefix =
        bucket_set ImageAssets results (relPath_of from' src origSrc prefix) (info_of name from' to)"
      by (simp only: V b1 b2 if_True simp_thms)
    then show "placed ImageAssets (relPath_of from' src origSrc prefix) (info_of name from' to) results
          (visitFile W A results from' to name src origSrc prefix)"
      by (simp only: placed_bucket_set)
  }
  {
    assume t: "\<not> useAppThinning W \<or> BUNDLE_FILE_REGEXP (relPath_of from' src origSrc prefix)"
    then have "\<not> (useAppThinning W \<and> \<not> BUNDLE_FILE_REGEXP (relPath_of from' src origSrc prefix))" by blast
    then have "visitFile W A results from' to name src origSrc prefix =
        bucket_set ResourcesToCopy results (relPath_of from' src origSrc prefix) (info_of name from' to)"
      by (simp only: V b1 b2 if_False)
    then show "placed ResourcesToCopy (relPath_of from' src origSrc prefix) (info_of name from' to) results
          (visitFile W A results from' to name src origSrc prefix)"
      by (simp only: placed_bucket_set)
  }
  show "BUNDLE_FILE_REGEXP p \<longleftrightarrow> (\<exists>x c d y. p = x @ c # ''.bundle/'' @ d # y \<and> dot c \<and> dot d)"
    by (rule BUNDLE_FILE_REGEXP_iff)
qed

theorem image_asset_rule_witness:
  "Map_get (imageAssets
      (visitFile \<lparr>useAppThinning = True, ignoreDirs = None, ignoreFiles = None, appIconRegExp = None\<rparr>
         (\<lambda>f d. []) Result_new ''/r/img/photo.jpg'' ''/o/img/photo.jpg'' ''photo.jpg'' ''/r/img''
         (Some ''/r'') None)) ''img/photo.jpg'' =
     Some \<lparr>info_name = ''photo'', info_ext = Some ''jpg'', info_src = ''/r/img/photo.jpg'',
      info_dest = ''/o/img/photo.jpg'', info_tag = None, info_scale = None, info_device = None\<rparr> \<and>
   resourcesToCopy
      (visitFile \<lparr>useAppThinning = True, ignoreDirs = None, ignoreFiles = None, appIconRegExp = None\<rparr>
         (\<lambda>f d. []) Result_new ''/r/img/photo.jpg'' ''/o/img/photo.jpg'' ''photo.jpg'' ''/r/img''
         (Some ''/r'') None) = [] \<and>
   Map_get (resourcesToCopy
      (visitFile \<lparr>useAppThinning = True, ignoreDirs = None, ignoreFiles = None, appIconRegExp = None\<rparr>
         (\<lambda>f d. []) Result_new ''/r/a.bundle/photo.jpg'' ''/o/a.bundle/photo.jpg'' ''photo.jpg''
         ''/r/a.bundle'' (Some ''/r'') None)) ''a.bundle/photo.jpg'' =
     Some \<lparr>info_name = ''photo'', info_ext = Some ''jpg'', info_src = ''/r/a.bundle/photo.jpg'',
      info_dest = ''/o/a.bundle/photo.jpg'', info_tag = None, info_scale = None, info_device = None\<rparr> \<and>
   imageAssets
      (visitFile \<lparr>useAppThinning = True, ignoreDirs = None, ignoreFiles = None, appIconRegExp = None\<rparr>
         (\<lambda>f d. []) Result_new ''/r/a.bundle/photo.jpg'' ''/o/a.bundle/photo.jpg'' ''photo.jpg''
         ''/r/a.bundle'' (Some ''/r'') None) = []"
proof -
  let ?W = "\<lparr>useAppThinning = True, ignoreDirs = None, ignoreFiles = None, appIconRegExp = None\<rparr>"
  let ?v1 = "visitFile ?W (\<lambda>f d. []) Result_new ''/r/img/photo.jpg'' ''/o/img/photo.jpg'' ''photo.jpg''
      ''/r/img'' (Some ''/r'') None"
  let ?v2 = "visitFile ?W (\<lambda>f d. []) Result_new ''/r/a.bundle/photo.jpg'' ''/o/a.bundle/photo.jpg''
      ''photo.jpg'' ''/r/a.bundle'' (Some ''/r'') None"
  have h1: "\<not> ignored (ignoreFiles ?W) ''photo.jpg''" by (simp add: ignored_def)
  have h2: "info_ext (info_of ''photo.jpg'' ''/r/img/photo.jpg'' ''/o/img/photo.jpg'') = Some ''jpg''"
    by code_simp
  have h2': "info_ext (info_of ''photo.jpg'' ''/r/a.bundle/photo.jpg'' ''/o/a.bundle/photo.jpg'') = Some ''jpg''"
    by code_simp
  have h3: "''jpg'' = ''jpg'' \<or> ''jpg'' = ''png'' \<and>
      (truthy (Some ''/r'') \<or> icon_match ?W ''photo.jpg'' = None \<and> \<not> LAUNCH_IMAGE_REGEXP ''photo.jpg'')"
    by simp
  have h4: "LAUNCH_LOGO_REGEXP ''photo.jpg'' = None" by code_simp
  have e1: "relPath_of ''/r/img/photo.jpg'' ''/r/img'' (Some ''/r'') None = ''img/photo.jpg''" by code_simp
  have e1': "relPath_of ''/r/a.bundle/photo.jpg'' ''/r/a.bundle'' (Some ''/r'') None = ''a.bundle/photo.jpg''"
    by code_simp
  have e2: "\<not> BUNDLE_FILE_REGEXP ''img/photo.jpg''" by code_simp
  have e2': "BUNDLE_FILE_REGEXP ''a.bundle/photo.jpg''" by code_simp
  have e3: "info_of ''photo.jpg'' ''/r/img/photo.jpg'' ''/o/img/photo.jpg'' =
     \<lparr>info_name = ''photo'', info_ext = Some ''jpg'', info_src = ''/r/img/photo.jpg'',
      info_dest = ''/o/img/photo.jpg'', info_tag = None, info_scale = None, info_device = None\<rparr>"
    by code_simp
  have e3': "info_of ''photo.jpg'' ''/r/a.bundle/photo.jpg'' ''/o/a.bundle/photo.jpg'' =
     \<lparr>info_name = ''photo'', info_ext = Some ''jpg'', info_src = ''/r/a.bundle/photo.jpg'',
      info_dest = ''/o/a.bundle/photo.jpg'', info_tag = None, info_scale = None, info_device = None\<rparr>"
    by code_simp
  have t: "useAppThinning ?W" by simp
  note R1 = image_asset_rule[OF h1 h2 h3 h4, where A = "\<lambda>f d. []" and results = Result_new
      and src = "''/r/img''" and prefix = None, THEN conjunct1, unfolded e1 e3]
  from R1 t e2 have p1: "placed ImageAssets ''img/photo.jpg''
      \<lparr>info_name = ''photo'', info_ext = Some ''jpg'', info_src = ''/r/img/photo.jpg'',
        info_dest = ''/o/img/photo.jpg'', info_tag = None, info_scale = None, info_device = None\<rparr>
      Result_new ?v1" by blast
  note R2 = image_asset_rule[OF h1 h2' h3 h4, where A = "\<lambda>f d. []" and results = Result_new
      and src = "''/r/a.bundle''" and prefix = None, THEN conjunct2, THEN conjunct1, unfolded e1' e3']
  from R2 e2' have p2: "placed ResourcesToCopy ''a.bundle/photo.jpg''
      \<lparr>info_name = ''photo'', info_ext = Some ''jpg'', info_src = ''/r/a.bundle/photo.jpg'',
        info_dest = ''/o/a.bundle/photo.jpg'', info_tag = None, info_scale = None, info_device = None\<rparr>
      Result_new ?v2" by blast
  from placed_get[OF p1] have c1: "Map_get (imageAssets ?v1) ''img/photo.jpg'' =
     Some \<lparr>info_name = ''photo'', info_ext = Some ''jpg'', info_src = ''/r/img/photo.jpg'',
      info_dest = ''/o/img/photo.jpg'', info_tag = None, info_scale = None, info_device = None\<rparr>"
    by simp
  from placed_other[OF p1, of ResourcesToCopy] have c2: "resourcesToCopy ?v1 = []"
    by (simp add: Result_new_def)
  from placed_get[OF p2] have c3: "Map_get (resourcesToCopy ?v2) ''a.bundle/photo.jpg'' =
     Some \<lparr>info_name = ''photo'', info_ext = Some ''jpg'', info_src = ''/r/a.bundle/photo.jpg'',
      info_dest = ''/o/a.bundle/photo.jpg'', info_tag = None, info_scale = None, info_device = None\<rparr>"
    by simp
  from placed_other[OF p2, of ImageAssets] have c4: "imageAssets ?v2 = []"
    by (simp add: Result_new_def)
  from c1 c2 c3 c4 show ?thesis by (intro conjI)
qed

text \<open>
  C7 as the specification words it fails for a directory named \<open>.bundle\<close> right under
  the root: the relative path \<open>.bundle/x.jpg\<close> has a segment ending in \<open>.bundle/\<close>, yet
  nothing stands before it, the pattern does not match, and with app thinning on the
  file is put into \<open>imageAssets\<close>.
\<close>

theorem dot_bundle_directory_thinned:
  "walk \<lparr>useAppThinning = True, ignoreDirs = None, ignoreFiles = None, appIconRegExp = None\<rparr>
     (\<lambda>f d. []) (Some (Dir [(''.bundle'', Dir [(''x.jpg'', File)])])) ''/r'' ''/o'' None None None =
   Inr (Result_new\<lparr>imageAssets :=
     [(''.bundle/x.jpg'',
       \<lparr>info_name = ''x'', info_ext = Some ''jpg'', info_src = ''/r/.bundle/x.jpg'',
        info_dest = ''/o/.bundle/x.jpg'', info_tag = None, info_scale = None, info_device = None\<rparr>)]\<rparr>)"
  by code_simp

subsection \<open>The launch logo\<close>

text \<open>
  C8, as the code has it. The launch-logo pattern matches exactly the names made of
  \<open>LaunchLogo\<close>, an optional scale \<open>@2x\<close> or \<open>@3x\<close>, an optional device \<open>~iphone\<close> or
  \<open>~ipad\<close>, and \<open>.png\<close> or \<open>.jpg\<close>; its groups are the digit of the scale and the name
  of the device, each absent when the name has none. A file that is not ignored and
  whose name matches is placed into \<open>launchLogos\<close> with the scale and the device of
  the match in its record, at any depth, unless it is a \<open>png\<close> file visited at the
  root level whose name matches the icon pattern: that file is placed into \<open>appIcons\<close>.
  The name \<open>LaunchLogo@2x~ipad.png\<close> gives the scale \<open>2\<close> and the device \<open>ipad\<close>.
\<close>

theorem launch_logo_placed:
  "(LAUNCH_LOGO_REGEXP name = Some (sc, dv) \<longleftrightarrow>
      (sc = None \<or> sc = Some ''2'' \<or> sc = Some ''3'') \<and>
      (dv = None \<or> dv = Some ''iphone'' \<or> dv = Some ''ipad'') \<and>
      (name = ''LaunchLogo'' @ scale_part sc @ device_part dv @ ''.png'' \<or>
       name = ''LaunchLogo'' @ scale_part sc @ device_part dv @ ''.jpg''))
   \<and> (\<not> ignored (ignoreFiles W) name \<and> LAUNCH_LOGO_REGEXP name = Some (sc, dv) \<and>
        (truthy origSrc \<or> icon_match W name = None \<or> info_ext (info_of name from' to) = Some ''jpg'') \<longrightarrow>
      placed LaunchLogos (relPath_of from' src origSrc prefix)
        ((info_of name from' to)\<lparr>info_scale := sc, info_device := dv\<rparr>) results
        (visitFile W A results from' to name src origSrc prefix))
   \<and> (\<not> ignored (ignoreFiles W) name \<and> LAUNCH_LOGO_REGEXP name = Some (sc, dv) \<and>
        \<not> truthy origSrc \<and> icon_match W name = Some t \<and> info_ext (info_of name from' to) = Some ''png'' \<longrightarrow>
      placed AppIcons (relPath_of from' src origSrc prefix)
        ((info_of name from' to)\<lparr>info_tag := t\<rparr>) results
        (visitFile W A results from' to name src origSrc prefix))
   \<and> LAUNCH_LOGO_REGEXP ''LaunchLogo@2x~ipad.png'' = Some (Some ''2'', Some ''ipad'')"
proof (intro conjI impI)
  show "LAUNCH_LOGO_REGEXP name = Some (sc, dv) \<longleftrightarrow>
      (sc = None \<or> sc = Some ''2'' \<or> sc = Some ''3'') \<and>
      (dv = None \<or> dv = Some ''iphone'' \<or> dv = Some ''ipad'') \<and>
      (name = ''LaunchLogo'' @ scale_part sc @ device_part dv @ ''.png'' \<or>
       name = ''LaunchLogo'' @ scale_part sc @ device_part dv @ ''.jpg'')"
    by (rule launch_logo_iff)
next
  assume a: "\<not> ignored (ignoreFiles W) name \<and> LAUNCH_LOGO_REGEXP name = Some (sc, dv) \<and>
        (truthy origSrc \<or> icon_match W name = None \<or> info_ext (info_of name from' to) = Some ''jpg'')"
  then have n: "\<not> ignored (ignoreFiles W) name" and m: "LAUNCH_LOGO_REGEXP name = Some (sc, dv)" by blast+
  from launch_logo_ext[OF m] obtain b e where f: "FILENAME_REGEXP name = Some (b, e)"
    and e: "e = ''png'' \<or> e = ''jpg''" by blast
  from e have h: "e \<noteq> ''html''" by auto
  note V = visitFile_plain[OF n f h, of A results from' to src origSrc prefix]
  have li: "\<not> LAUNCH_IMAGE_REGEXP name" by (rule launch_logo_not_image[OF m])
  have b1: "bucket_of W name (relPath_of from' src origSrc prefix) origSrc = LaunchLogos"
    using a e f m li by (auto simp: bucket_of_def info_ext_info_of)
  have b2: "record_of W name from' to origSrc = (info_of name from' to)\<lparr>info_scale := sc, info_device := dv\<rparr>"
    using a e f m li by (auto simp: record_of_def info_ext_info_of)
  show "placed LaunchLogos (relPath_of from' src origSrc prefix)
        ((info_of name from' to)\<lparr>info_scale := sc, info_device := dv\<rparr>) results
        (visitFile W A results from' to name src origSrc prefix)"
    by (simp only: V b1 b2 placed_bucket_set)
next
  assume a: "\<not> ignored (ignoreFiles W) name \<and> LAUNCH_LOGO_REGEXP name = Some (sc, dv) \<and>
        \<not> truthy origSrc \<and> icon_match W name = Some t \<and> info_ext (info_of name from' to) = Some ''png''"
  then have n: "\<not> ignored (ignoreFiles W) name" and m: "LAUNCH_LOGO_REGEXP name = Some (sc, dv)" by blast+
  from launch_logo_ext[OF m] obtain b e where f: "FILENAME_REGEXP name = Some (b, e)"
    and e: "e = ''png'' \<or> e = ''jpg''" by blast
  from e have h: "e \<noteq> ''html''" by auto
  note V = visitFile_plain[OF n f h, of A results from' to src origSrc prefix]
  have b1: "bucket_of W name (relPath_of from' src origSrc prefix) origSrc = AppIcons"
    using a f by (auto simp: bucket_of_def info_ext_info_of)
  have b2: "record_of W name from' to origSrc = (info_of name from' to)\<lparr>info_tag := t\<rparr>"
    using a f by (auto simp: record_of_def info_ext_info_of)
  show "placed AppIcons (relPath_of from' src origSrc prefix)
        ((info_of name from' to)\<lparr>info_tag := t\<rparr>) results
        (visitFile W A results from' to name src origSrc prefix)"
    by (simp only: V b1 b2 placed_bucket_set)
next
  show "LAUNCH_LOGO_REGEXP ''LaunchLogo@2x~ipad.png'' = Some (Some ''2'', Some ''ipad'')"
    by (simp add: LAUNCH_LOGO_REGEXP_def opt_def logo_scale_def logo_device_def)
qed

theorem launch_logo_placed_witness:
  "LAUNCH_LOGO_REGEXP ''LaunchLogo@3x~iphone.jpg'' = Some (Some ''3'', Some ''iphone'') \<and>
   Map_get (launchLogos
      (visitFile \<lparr>useAppThinning = False, ignoreDirs = None, ignoreFiles = None, appIconRegExp = None\<rparr>
         (\<lambda>f d. []) Result_new ''/r/img/LaunchLogo@2x~ipad.png'' ''/o/img/LaunchLogo@2x~ipad.png''
         ''LaunchLogo@2x~ipad.png'' ''/r/img'' (Some ''/r'') None)) ''img/LaunchLogo@2x~ipad.png'' =
     Some \<lparr>info_name = ''LaunchLogo@2x~ipad'', info_ext = Some ''png'',
       info_src = ''/r/img/LaunchLogo@2x~ipad.png'', info_dest = ''/o/img/LaunchLogo@2x~ipad.png'',
       info_tag = None, info_scale = Some ''2'', info_device = Some ''ipad''\<rparr> \<and>
   Map_get (appIcons
      (visitFile \<lparr>useAppThinning = False, ignoreDirs = None, ignoreFiles = None,
           appIconRegExp = Some (\<lambda>n. if n = ''LaunchLogo.png'' then Some (Some []) else None)\<rparr>
         (\<lambda>f d. []) Result_new ''/r/LaunchLogo.png'' ''/o/LaunchLogo.png''
         ''LaunchLogo.png'' ''/r'' None None)) ''LaunchLogo.png'' =
     Some \<lparr>info_name = ''LaunchLogo'', info_ext = Some ''png'',
       info_src = ''/r/LaunchLogo.png'', info_dest = ''/o/LaunchLogo.png'',
       info_tag = Some [], info_scale = None, info_device = None\<rparr>"
proof -
  let ?W = "\<lparr>useAppThinning = False, ignoreDirs = None, ignoreFiles = None, appIconRegExp = None\<rparr>"
  let ?W2 = "\<lparr>useAppThinning = False, ignoreDirs = None, ignoreFiles = None,
           appIconRegExp = Some (\<lambda>n. if n = ''LaunchLogo.png'' then Some (Some []) else None)\<rparr>"
  have s: "(Some ''3'' = None \<or> Some ''3'' = Some ''2'' \<or> Some ''3'' = Some ''3'') \<and>
      (Some ''iphone'' = None \<or> Some ''iphone'' = Some ''iphone'' \<or> Some ''iphone'' = Some ''ipad'') \<and>
      (''LaunchLogo@3x~iphone.jpg'' = ''LaunchLogo'' @ scale_part (Some ''3'') @ device_part (Some ''iphone'') @ ''.png'' \<or>
       ''LaunchLogo@3x~iphone.jpg'' = ''LaunchLogo'' @ scale_part (Some ''3'') @ device_part (Some ''iphone'') @ ''.jpg'')"
    by (simp add: scale_part_def device_part_def)
  from launch_logo_placed[THEN conjunct1, of "''LaunchLogo@3x~iphone.jpg''" "Some ''3''" "Some ''iphone''"] s
  have c0: "LAUNCH_LOGO_REGEXP ''LaunchLogo@3x~iphone.jpg'' = Some (Some ''3'', Some ''iphone'')"
    by (simp only: simp_thms)
  have m: "LAUNCH_LOGO_REGEXP ''LaunchLogo@2x~ipad.png'' = Some (Some ''2'', Some ''ipad'')"
    by (simp add: LAUNCH_LOGO_REGEXP_def opt_def logo_scale_def logo_device_def)
  have h1: "\<not> ignored (ignoreFiles ?W) ''LaunchLogo@2x~ipad.png'' \<and>
      LAUNCH_LOGO_REGEXP ''LaunchLogo@2x~ipad.png'' = Some (Some ''2'', Some ''ipad'') \<and>
      (truthy (Some ''/r'') \<or> icon_match ?W ''LaunchLogo@2x~ipad.png'' = None \<or>
       info_ext (info_of ''LaunchLogo@2x~ipad.png'' ''/r/img/LaunchLogo@2x~ipad.png''
         ''/o/img/LaunchLogo@2x~ipad.png'') = Some ''jpg'')"
    using m by (simp add: ignored_def)
  have e1: "relPath_of ''/r/img/LaunchLogo@2x~ipad.png'' ''/r/img'' (Some ''/r'') None = ''img/LaunchLogo@2x~ipad.png''"
    by code_simp
  have e2: "(info_of ''LaunchLogo@2x~ipad.png'' ''/r/img/LaunchLogo@2x~ipad.png'' ''/o/img/LaunchLogo@2x~ipad.png'')
      \<lparr>info_scale := Some ''2'', info_device := Some ''ipad''\<rparr> =
    \<lparr>info_name = ''LaunchLogo@2x~ipad'', info_ext = Some ''png'',
      info_src = ''/r/img/LaunchLogo@2x~ipad.png'', info_dest = ''/o/img/LaunchLogo@2x~ipad.png'',
      info_tag = None, info_scale = Some ''2'', info_device = Some ''ipad''\<rparr>"
    by code_simp
  note R1 = launch_logo_placed[where A = "\<lambda>f d. []" and results = Result_new and src = "''/r/img''"
      and prefix = None, THEN conjunct2, THEN conjunct1, THEN mp, OF h1, unfolded e1 e2]
  from placed_get[OF R1] have c1: "Map_get (launchLogos
      (visitFile ?W (\<lambda>f d. []) Result_new ''/r/img/LaunchLogo@2x~ipad.png'' ''/o/img/LaunchLogo@2x~ipad.png''
         ''LaunchLogo@2x~ipad.png'' ''/r/img'' (Some ''/r'') None)) ''img/LaunchLogo@2x~ipad.png'' =
     Some \<lparr>info_name = ''LaunchLogo@2x~ipad'', info_ext = Some ''png'',
       info_src = ''/r/img/LaunchLogo@2x~ipad.png'', info_dest = ''/o/img/LaunchLogo@2x~ipad.png'',
       info_tag = None, info_scale = Some ''2'', info_device = Some ''ipad''\<rparr>"
    by simp
  have m2: "LAUNCH_LOGO_REGEXP ''LaunchLogo.png'' = Some (None, None)"
    by (simp add: LAUNCH_LOGO_REGEXP_def opt_def logo_scale_def logo_device_def)
  have x2: "info_ext (info_of ''LaunchLogo.png'' ''/r/LaunchLogo.png'' ''/o/LaunchLogo.png'') = Some ''png''"
    by code_simp
  have h2: "\<not> ignored (ignoreFiles ?W2) ''LaunchLogo.png'' \<and>
      LAUNCH_LOGO_REGEXP ''LaunchLogo.png'' = Some (None, None) \<and>
      \<not> truthy None \<and> icon_match ?W2 ''LaunchLogo.png'' = Some (Some []) \<and>
      info_ext (info_of ''LaunchLogo.png'' ''/r/LaunchLogo.png'' ''/o/LaunchLogo.png'') = Some ''png''"
    using m2 x2 by (simp add: ignored_def icon_match_def)
  have e3: "relPath_of ''/r/LaunchLogo.png'' ''/r'' None None = ''LaunchLogo.png''" by code_simp
  have e4: "(info_of ''LaunchLogo.png'' ''/r/LaunchLogo.png'' ''/o/LaunchLogo.png'')\<lparr>info_tag := Some []\<rparr> =
    \<lparr>info_name = ''LaunchLogo'', info_ext = Some ''png'',
       info_src = ''/r/LaunchLogo.png'', info_dest = ''/o/LaunchLogo.png'',
       info_tag = Some [], info_scale = None, info_device = None\<rparr>"
    by code_simp
  note R2 = launch_logo_placed[where A = "\<lambda>f d. []" and results = Result_new and src = "''/r''"
      and prefix = None, THEN conjunct2, THEN conjunct2, THEN conjunct1, THEN mp, OF h2, unfolded e3 e4]
  from placed_get[OF R2] have c2: "Map_get (appIcons
      (visitFile ?W2 (\<lambda>f d. []) Result_new ''/r/LaunchLogo.png'' ''/o/LaunchLogo.png''
         ''LaunchLogo.png'' ''/r'' None None)) ''LaunchLogo.png'' =
     Some \<lparr>info_name = ''LaunchLogo'', info_ext = Some ''png'',
       info_src = ''/r/LaunchLogo.png'', info_dest = ''/o/LaunchLogo.png'',
       info_tag = Some [], info_scale = None, info_device = None\<rparr>"
    by simp
  from c0 c1 c2 show ?thesis by (intro conjI)
qed

text \<open>
  C8 as the specification words it fails at the root level: with the icon
  \<open>LaunchLogo.png\<close>, the root-level file \<open>LaunchLogo@2x~ipad.png\<close>, whose name matches the
  launch-logo pattern, matches the icon pattern first and is put into \<open>appIcons\<close>;
  \<open>launchLogos\<close> stays empty.
\<close>

theorem launch_logo_taken_as_icon:
  "LAUNCH_LOGO_REGEXP ''LaunchLogo@2x~ipad.png'' = Some (Some ''2'', Some ''ipad'') \<and>
   (case Walker_constructor (\<lambda>source. None)
           \<lparr>tiappIcon = ''LaunchLogo.png'', options_useAppThinning = False,
            options_ignoreDirs = None, options_ignoreFiles = None\<rparr> of
      None \<Rightarrow> False
    | Some W \<Rightarrow>
        walk W (\<lambda>f d. []) (Some (Dir [(''LaunchLogo@2x~ipad.png'', File)])) ''/r'' ''/o'' None None None =
          Inr (Result_new\<lparr>appIcons :=
            [(''LaunchLogo@2x~ipad.png'',
              \<lparr>info_name = ''LaunchLogo@2x~ipad'', info_ext = Some ''png'',
               info_src = ''/r/LaunchLogo@2x~ipad.png'', info_dest = ''/o/LaunchLogo@2x~ipad.png'',
               info_tag = Some ''@2x~ipad'', info_scale = None, info_device = None\<rparr>)]\<rparr>))"
  by code_simp

subsection \<open>The name and the extension of a record\<close>

text \<open>
  C9, as the code has it. The extension of a record is the text after the last dot of
  the file name, kept as it is written (no letter is changed to lower case), when that
  text is not empty and holds only ASCII letters, digits and underscores, and no line
  terminator stands before the dot; the name of the record is then the text before
  that dot. For every other file name the extension is absent and the name of the
  record is the whole file name. The record a visit stores carries this name and
  this extension.
\<close>

theorem extension_as_written:
  "(name = b @ CHR ''.'' # e \<and> list_all dot b \<and> e \<noteq> [] \<and> list_all word_char e \<longrightarrow>
      info_name (info_of name from' to) = b \<and> info_ext (info_of name from' to) = Some e \<and>
      CHR ''.'' \<notin> set e)
   \<and> ((\<forall>b e. name = b @ CHR ''.'' # e \<longrightarrow> \<not> (list_all dot b \<and> e \<noteq> [] \<and> list_all word_char e)) \<longrightarrow>
      info_name (info_of name from' to) = name \<and> info_ext (info_of name from' to) = None)
   \<and> (\<not> ignored (ignoreFiles W) name \<longrightarrow>
      (\<exists>bk v. Map_get (bucket_map bk (visitFile W A results from' to name src origSrc prefix))
                (relPath_of from' src origSrc prefix) = Some v \<and>
              info_name v = info_name (info_of name from' to) \<and>
              info_ext v = info_ext (info_of name from' to)))"
proof (intro conjI impI)
  assume a: "name = b @ CHR ''.'' # e \<and> list_all dot b \<and> e \<noteq> [] \<and> list_all word_char e"
  then have f: "FILENAME_REGEXP name = Some (b, e)" by (simp add: FILENAME_REGEXP_iff)
  show "info_name (info_of name from' to) = b" using f by (simp add: info_name_info_of)
  show "info_ext (info_of name from' to) = Some e" using f by (simp add: info_ext_info_of)
  show "CHR ''.'' \<notin> set e" using a word_char_not_dot by (auto simp: list_all_iff)
next
  assume "\<forall>b e. name = b @ CHR ''.'' # e \<longrightarrow> \<not> (list_all dot b \<and> e \<noteq> [] \<and> list_all word_char e)"
  then have f: "FILENAME_REGEXP name = None" by (simp add: FILENAME_REGEXP_None_iff)
  show "info_name (info_of name from' to) = name" using f by (simp add: info_name_info_of)
  show "info_ext (info_of name from' to) = None" using f by (simp add: info_ext_info_of)
next
  assume n: "\<not> ignored (ignoreFiles W) name"
  show "\<exists>bk v. Map_get (bucket_map bk (visitFile W A results from' to name src origSrc prefix))
                (relPath_of from' src origSrc prefix) = Some v \<and>
              info_name v = info_name (info_of name from' to) \<and>
              info_ext v = info_ext (info_of name from' to)"
    by (rule exI[of _ "bucket_of W name (relPath_of from' src origSrc prefix) origSrc"],
        rule exI[of _ "record_of W name from' to origSrc"])
       (simp add: visitFile_eq[OF n] bucket_map_bucket_set Map_get_Map_set record_of_name_ext)
qed


theorem extension_as_written_witness:
  "info_name (info_of ''jquery.min.js'' ''/r/jquery.min.js'' ''/o/jquery.min.js'') = ''jquery.min'' \<and>
   info_ext (info_of ''jquery.min.js'' ''/r/jquery.min.js'' ''/o/jquery.min.js'') = Some ''js'' \<and>
   info_name (info_of ''Makefile'' ''/r/Makefile'' ''/o/Makefile'') = ''Makefile'' \<and>
   info_ext (info_of ''Makefile'' ''/r/Makefile'' ''/o/Makefile'') = None \<and>
   (\<exists>bk v. Map_get (bucket_map bk
        (visitFile \<lparr>useAppThinning = False, ignoreDirs = None, ignoreFiles = None, appIconRegExp = None\<rparr>
           (\<lambda>f d. []) Result_new ''/r/jquery.min.js'' ''/o/jquery.min.js'' ''jquery.min.js'' ''/r'' None None))
        (relPath_of ''/r/jquery.min.js'' ''/r'' None None) = Some v \<and>
      info_name v = ''jquery.min'' \<and> info_ext v = Some ''js'')"
proof -
  let ?W = "\<lparr>useAppThinning = False, ignoreDirs = None, ignoreFiles = None, appIconRegExp = None\<rparr>"
  let ?A = "(\<lambda>f d. []) :: analyzer"
  note T1 = extension_as_written[where name = "''jquery.min.js''" and b = "''jquery.min''" and e = "''js''"
      and from' = "''/r/jquery.min.js''" and to = "''/o/jquery.min.js''" and W = ?W and A = ?A
      and results = Result_new and src = "''/r''" and origSrc = None and prefix = None]
  note T2 = extension_as_written[where name = "''Makefile''" and b = "[]" and e = "[]"
      and from' = "''/r/Makefile''" and to = "''/o/Makefile''" and W = ?W and A = ?A
      and results = Result_new and src = "''/r''" and origSrc = None and prefix = None]
  have h1: "''jquery.min.js'' = ''jquery.min'' @ CHR ''.'' # ''js'' \<and> list_all dot ''jquery.min'' \<and>
      ''js'' \<noteq> [] \<and> list_all word_char ''js''"
    by (simp add: dot_def word_char_def)
  have h2: "\<forall>b e. ''Makefile'' = b @ CHR ''.'' # e \<longrightarrow> \<not> (list_all dot b \<and> e \<noteq> [] \<and> list_all word_char e)"
  proof (intro allI impI)
    fix b e :: string
    assume "''Makefile'' = b @ CHR ''.'' # e"
    then have "set ''Makefile'' = set (b @ CHR ''.'' # e)" by simp
    then have "CHR ''.'' \<in> set ''Makefile''" by simp
    then show "\<not> (list_all dot b \<and> e \<noteq> [] \<and> list_all word_char e)" by simp
  qed
  have h3: "\<not> ignored (ignoreFiles ?W) ''jquery.min.js''" by (simp add: ignored_def)
  from T1 h1 h3 have c1: "info_name (info_of ''jquery.min.js'' ''/r/jquery.min.js'' ''/o/jquery.min.js'') = ''jquery.min''"
    and c2: "info_ext (info_of ''jquery.min.js'' ''/r/jquery.min.js'' ''/o/jquery.min.js'') = Some ''js''"
    and c5: "\<exists>bk v. Map_get (bucket_map bk
        (visitFile ?W ?A Result_new ''/r/jquery.min.js'' ''/o/jquery.min.js'' ''jquery.min.js'' ''/r'' None None))
        (relPath_of ''/r/jquery.min.js'' ''/r'' None None) = Some v \<and>
      info_name v = info_name (info_of ''jquery.min.js'' ''/r/jquery.min.js'' ''/o/jquery.min.js'') \<and>
      info_ext v = info_ext (info_of ''jquery.min.js'' ''/r/jquery.min.js'' ''/o/jquery.min.js'')"
    by blast+
  from T2 h2 have c3: "info_name (info_of ''Makefile'' ''/r/Makefile'' ''/o/Makefile'') = ''Makefile''"
    and c4: "info_ext (info_of ''Makefile'' ''/r/Makefile'' ''/o/Makefile'') = None"
    by blast+
  from c1 c2 c3 c4 c5 show ?thesis by simp
qed

text \<open>
  C9 as the specification words it fails: the extension of \<open>A.PNG\<close> is recorded as
  \<open>PNG\<close>, not as the lower-case \<open>png\<close>; \<open>a.tar-gz\<close> has a last dot and yet no extension
  is recorded; and a line terminator before the dot leaves the extension absent.
\<close>

theorem extension_not_lowercased:
  "info_ext (info_of ''A.PNG'' ''/r/A.PNG'' ''/o/A.PNG'') = Some ''PNG'' \<and>
   info_ext (info_of ''A.PNG'' ''/r/A.PNG'' ''/o/A.PNG'') \<noteq> Some ''png'' \<and>
   info_ext (info_of ''a.tar-gz'' ''/r/a.tar-gz'' ''/o/a.tar-gz'') = None \<and>
   info_name (info_of ''a.tar-gz'' ''/r/a.tar-gz'' ''/o/a.tar-gz'') = ''a.tar-gz'' \<and>
   info_ext (info_of [CHR ''a'', CHR 0x0A, CHR ''.'', CHR ''j'', CHR ''s''] ''/r/x'' ''/o/x'') = None"
  by (simp add: info_of_def FILENAME_REGEXP_def filename_ext_def dot_def word_char_def)

subsection \<open>The ignore pattern of a walk\<close>

text \<open>
  C10. The pattern \<open>ignore\<close> given to \<open>walk\<close> is tested against the names of the entries
  of the root only: two patterns that agree on those names give the same walk; the
  walk of a subdirectory (also one reached through a symbolic link) is started with
  no pattern, and no pattern ignores nothing.
\<close>

theorem ignore_only_at_root:
  "((\<forall>d\<in>set list. ignored ignore (fst d) = ignored ignore' (fst d)) \<longrightarrow>
      walk W A (Some (Dir list)) src dest ignore origSrc prefix =
      walk W A (Some (Dir list)) src dest ignore' origSrc prefix)
   \<and> (\<not> ignored ignore name \<and> \<not> ignored (ignoreDirs W) name \<longrightarrow>
      visitListing W A results name (Dir sub) src dest ignore origSrc prefix =
        walkDir W A results (Dir sub) (path_join src name) (path_join dest name) None
          (Some (or_else origSrc src)) prefix)
   \<and> (\<not> ignored ignore name \<and> \<not> ignored (ignoreDirs W) name \<longrightarrow>
      visitListing W A results name (Symlink (Dir sub)) src dest ignore origSrc prefix =
        walkDir W A results (Dir sub) (path_join src name) (path_join dest name) None
          (Some (or_else origSrc src)) prefix)
   \<and> \<not> ignored None name"
proof (intro conjI impI)
  assume "\<forall>d\<in>set list. ignored ignore (fst d) = ignored ignore' (fst d)"
  from visitAll_ignore_cong[OF this]
  show "walk W A (Some (Dir list)) src dest ignore origSrc prefix =
      walk W A (Some (Dir list)) src dest ignore' origSrc prefix"
    by (simp add: walk_def walkDir.simps)
next
  assume "\<not> ignored ignore name \<and> \<not> ignored (ignoreDirs W) name"
  then show "visitListing W A results name (Dir sub) src dest ignore origSrc prefix =
        walkDir W A results (Dir sub) (path_join src name) (path_join dest name) None
          (Some (or_else origSrc src)) prefix"
    by (simp add: visitListing.simps Let_def)
next
  assume "\<not> ignored ignore name \<and> \<not> ignored (ignoreDirs W) name"
  then show "visitListing W A results name (Symlink (Dir sub)) src dest ignore origSrc prefix =
        walkDir W A results (Dir sub) (path_join src name) (path_join dest name) None
          (Some (or_else origSrc src)) prefix"
    by (simp add: visitListing.simps Let_def)
next
  show "\<not> ignored None name" by (simp add: ignored_def)
qed

theorem ignore_only_at_root_witness:
  "walk \<lparr>useAppThinning = False, ignoreDirs = None, ignoreFiles = None, appIconRegExp = None\<rparr> (\<lambda>f d. [])
     (Some (Dir [(''tmp'', Dir [(''a.js'', File)]), (''lib'', Dir [(''tmp'', Dir [(''b.js'', File)])])]))
     ''/r'' ''/o'' (Some (\<lambda>n. n = ''tmp'')) None None =
   walk \<lparr>useAppThinning = False, ignoreDirs = None, ignoreFiles = None, appIconRegExp = None\<rparr> (\<lambda>f d. [])
     (Some (Dir [(''tmp'', Dir [(''a.js'', File)]), (''lib'', Dir [(''tmp'', Dir [(''b.js'', File)])])]))
     ''/r'' ''/o'' (Some (\<lambda>n. n = ''tmp'' \<or> n = ''b.js'')) None None \<and>
   walk \<lparr>useAppThinning = False, ignoreDirs = None, ignoreFiles = None, appIconRegExp = None\<rparr> (\<lambda>f d. [])
     (Some (Dir [(''tmp'', Dir [(''a.js'', File)]), (''lib'', Dir [(''tmp'', Dir [(''b.js'', File)])])]))
     ''/r'' ''/o'' (Some (\<lambda>n. n = ''tmp'')) None None =
   Inr (Result_new\<lparr>jsFiles := [(''lib/tmp/b.js'',
     \<lparr>info_name = ''b'', info_ext = Some ''js'', info_src = ''/r/lib/tmp/b.js'',
      info_dest = ''/o/lib/tmp/b.js'', info_tag = None, info_scale = None, info_device = None\<rparr>)]\<rparr>)"
proof -
  let ?l = "[(''tmp'', Dir [(''a.js'', File)]), (''lib'', Dir [(''tmp'', Dir [(''b.js'', File)])])]"
  have h: "\<forall>d\<in>set ?l. ignored (Some (\<lambda>n. n = ''tmp'')) (fst d) =
      ignored (Some (\<lambda>n. n = ''tmp'' \<or> n = ''b.js'')) (fst d)"
    by (simp add: ignored_def)
  note T = ignore_only_at_root[where list = ?l and ignore = "Some (\<lambda>n. n = ''tmp'')"
      and ignore' = "Some (\<lambda>n. n = ''tmp'' \<or> n = ''b.js'')", THEN conjunct1, THEN mp, OF h]
  have e: "walk \<lparr>useAppThinning = False, ignoreDirs = None, ignoreFiles = None, appIconRegExp = None\<rparr> (\<lambda>f d. [])
     (Some (Dir ?l)) ''/r'' ''/o'' (Some (\<lambda>n. n = ''tmp'')) None None =
   Inr (Result_new\<lparr>jsFiles := [(''lib/tmp/b.js'',
     \<lparr>info_name = ''b'', info_ext = Some ''js'', info_src = ''/r/lib/tmp/b.js'',
      info_dest = ''/o/lib/tmp/b.js'', info_tag = None, info_scale = None, info_device = None\<rparr>)]\<rparr>)"
    by code_simp
  from T e show ?thesis by (intro conjI)
qed

end
